theory Spec2Isabelle
  imports Main "HOL-Library.Sublist" "HOL-Library.AList"
begin

chapter \<open>The model\<close>

section \<open>Strings of the host language\<close>

text \<open>
  The program is TypeScript; its strings are sequences of code units. Here a string is a
  \<open>char list\<close> and a \<open>char\<close> is read as the code unit of the same number
  (U+0000 to U+00FF), so that \<open>length\<close> is the source's \<open>.length\<close>.

  \<open>isWhiteSpace\<close> is the set that both \<open>String.prototype.trim\<close> and the regular
  expression class \<open>\s\<close> use (WhiteSpace and LineTerminator of the language standard),
  cut to this range: TAB, LF, VT, FF, CR, SPACE and NO-BREAK SPACE.
\<close>

definition isWhiteSpace :: "char \<Rightarrow> bool" where
  "isWhiteSpace c =
     (c \<in> set [CHR 0x09, CHR 0x0A, CHR 0x0B, CHR 0x0C, CHR 0x0D, CHR 0x20, CHR 0xA0])"

definition trim :: "string \<Rightarrow> string" where
  "trim s = rev (dropWhile isWhiteSpace (rev (dropWhile isWhiteSpace s)))"

text \<open>
  \<open>toLowerCase\<close>: in this range the letters with a lower-case partner are A to Z and
  U+00C0 to U+00DE without the multiplication sign U+00D7; the partner is 32 further.
\<close>

definition toLowerCase_char :: "char \<Rightarrow> char" where
  "toLowerCase_char c =
     (let n = (of_char c :: nat)
      in if (65 \<le> n \<and> n \<le> 90) \<or> (192 \<le> n \<and> n \<le> 222 \<and> n \<noteq> 215)
         then char_of (n + 32) else c)"

definition toLowerCase :: "string \<Rightarrow> string" where
  "toLowerCase s = map toLowerCase_char s"

text \<open>\<open>s.includes(t)\<close>: \<open>t\<close> starts at some position of \<open>s\<close>.\<close>

fun includes' :: "string \<Rightarrow> string \<Rightarrow> bool" where
  "includes' [] t = (t = [])"
| "includes' (c # s) t = (prefix t (c # s) \<or> includes' s t)"

section \<open>Regular expressions\<close>

text \<open>
  The fragment of regular expressions that \<open>validateEmail\<close> needs, with the pieces a
  derivative needs (\<open>Zero\<close>, \<open>One\<close>, \<open>Alt\<close>, \<open>Star\<close>). \<open>NotIn items\<close> is a
  negated class \<open>[^...]\<close>; its items are \<open>\s\<close> and single characters.
  \<open>test\<close> decides whether the whole string matches: the source's expression is
  anchored at both ends (\<open>^...$\<close>, no flags), and it has no back-reference, so that
  \<open>RegExp.prototype.test\<close> is membership in the language.
\<close>

datatype cls_item = ClassSpace | ClassChar char

datatype regex =
    Zero
  | One
  | Chr char
  | NotIn "cls_item list"
  | Alt regex regex
  | Seq regex regex
  | Star regex

definition Plus :: "regex \<Rightarrow> regex" where
  "Plus r = Seq r (Star r)"

fun in_item :: "cls_item \<Rightarrow> char \<Rightarrow> bool" where
  "in_item ClassSpace c = isWhiteSpace c"
| "in_item (ClassChar d) c = (c = d)"

fun nullable :: "regex \<Rightarrow> bool" where
  "nullable Zero = False"
| "nullable One = True"
| "nullable (Chr d) = False"
| "nullable (NotIn items) = False"
| "nullable (Alt r s) = (nullable r \<or> nullable s)"
| "nullable (Seq r s) = (nullable r \<and> nullable s)"
| "nullable (Star r) = True"

fun deriv :: "char \<Rightarrow> regex \<Rightarrow> regex" where
  "deriv c Zero = Zero"
| "deriv c One = Zero"
| "deriv c (Chr d) = (if c = d then One else Zero)"
| "deriv c (NotIn items) = (if list_ex (\<lambda>i. in_item i c) items then Zero else One)"
| "deriv c (Alt r s) = Alt (deriv c r) (deriv c s)"
| "deriv c (Seq r s) =
     (if nullable r then Alt (Seq (deriv c r) s) (deriv c s) else Seq (deriv c r) s)"
| "deriv c (Star r) = Seq (deriv c r) (Star r)"

fun derivs :: "regex \<Rightarrow> string \<Rightarrow> regex" where
  "derivs r [] = r"
| "derivs r (c # s) = derivs (deriv c r) s"

definition test :: "regex \<Rightarrow> string \<Rightarrow> bool" where
  "test r s = nullable (derivs r s)"

text \<open>The language of an expression, to say what \<open>test\<close> decides.\<close>

fun lang :: "regex \<Rightarrow> string set" where
  "lang Zero = {}"
| "lang One = {[]}"
| "lang (Chr d) = {[d]}"
| "lang (NotIn items) = {[c] |c. \<not> list_ex (\<lambda>i. in_item i c) items}"
| "lang (Alt r s) = lang r \<union> lang s"
| "lang (Seq r s) = {u @ v |u v. u \<in> lang r \<and> v \<in> lang s}"
| "lang (Star r) = {concat ws |ws. set ws \<subseteq> lang r}"

section \<open>Validation\<close>

text \<open>
  \<open>src/utils/api.ts\<close>, \<open>validateEmail\<close>: the expression
  \<^verbatim>\<open>/^[^\s@]+@[^\s@]+\.[^\s@]+$/\<close>.
\<close>

definition emailRegex :: regex where
  "emailRegex =
     Seq (Plus (NotIn [ClassSpace, ClassChar (CHR ''@'')]))
       (Seq (Chr (CHR ''@''))
         (Seq (Plus (NotIn [ClassSpace, ClassChar (CHR ''@'')]))
           (Seq (Chr (CHR ''.''))
             (Plus (NotIn [ClassSpace, ClassChar (CHR ''@'')])))))"

definition validateEmail :: "string \<Rightarrow> bool" where
  "validateEmail email = test emailRegex email"

text \<open>
  The form's state (\<open>formData\<close> of \<open>StudentForm.tsx\<close>) and the error object
  \<open>FormErrors\<close>, whose three keys are optional: a map from the field to its message.
\<close>

record FormData =
  name :: string
  email :: string
  enrolledCourse :: string
  profileImage :: string

datatype field = Name | Email | EnrolledCourse

type_synonym FormErrors = "field \<rightharpoonup> string"

text \<open>
  \<open>validateForm\<close> builds \<open>newErrors\<close>, stores it with \<open>setErrors\<close> and returns
  whether it has no key. The model returns both: the new error state and the boolean.
  An empty string is falsy, so \<open>!s.trim()\<close> is \<open>trim s = []\<close>.
\<close>

definition validateForm :: "FormData \<Rightarrow> FormErrors \<times> bool" where
  "validateForm formData =
     (let newErrors = Map.empty;
          newErrors =
            (if trim (FormData.name formData) = []
             then newErrors(Name \<mapsto> ''Name is required'')
             else if length (trim (FormData.name formData)) < 2
             then newErrors(Name \<mapsto> ''Name must be at least 2 characters'')
             else newErrors);
          newErrors =
            (if trim (FormData.email formData) = []
             then newErrors(Email \<mapsto> ''Email is required'')
             else if \<not> validateEmail (FormData.email formData)
             then newErrors(Email \<mapsto> ''Please enter a valid email address'')
             else newErrors);
          newErrors =
            (if FormData.enrolledCourse formData = []
             then newErrors(EnrolledCourse \<mapsto> ''Please select a course'')
             else newErrors)
      in (newErrors, dom newErrors = {}))"

text \<open>
  The strings that the expression of \<open>validateEmail\<close> accepts, said without the
  expression: a local part, an at sign, a domain, a dot and a last segment, where each of
  the three parts is non-empty and holds neither white space nor an at sign (the class
  \<^verbatim>\<open>[^\s@]\<close> of the source). That these are the accepted strings is proved below
  (\<open>validateEmail_iff\<close>).
\<close>

definition email_part :: "string \<Rightarrow> bool" where
  "email_part p = (p \<noteq> [] \<and> (\<forall>c \<in> set p. \<not> isWhiteSpace c \<and> c \<noteq> CHR ''@''))"

definition local_domain_tld :: "string \<Rightarrow> bool" where
  "local_domain_tld e =
     (\<exists>l d t. e = l @ CHR ''@'' # d @ CHR ''.'' # t \<and> email_part l \<and> email_part d \<and> email_part t)"

text \<open>
  The pattern in the words of the specification, to compare with the one above: ``a
  non-whitespace local part, an \<open>@\<close>, a non-whitespace domain, a literal dot, and a
  non-whitespace TLD segment''. The words ask of a part only that it is there and free of
  white space.
\<close>

definition spec_email_part :: "string \<Rightarrow> bool" where
  "spec_email_part p = (p \<noteq> [] \<and> (\<forall>c \<in> set p. \<not> isWhiteSpace c))"

definition spec_local_domain_tld :: "string \<Rightarrow> bool" where
  "spec_local_domain_tld e =
     (\<exists>l d t. e = l @ CHR ''@'' # d @ CHR ''.'' # t
        \<and> spec_email_part l \<and> spec_email_part d \<and> spec_email_part t)"

section \<open>Student records and the search filter\<close>

text \<open>
  \<open>Student\<close> and \<open>Course\<close> of the type declarations. The field \<open>id\<close> is written
  \<open>id'\<close> here. A number is an \<open>int\<close> (course ids are small integers).
\<close>

record Student =
  id' :: string
  name :: string
  email :: string
  enrolledCourse :: string
  profileImage :: string
  dateEnrolled :: string

record Course =
  id' :: int
  name :: string

text \<open>
  \<open>StudentList.tsx\<close>, \<open>filteredStudents\<close>: the list shown for the search term.
\<close>

definition filteredStudents :: "Student list \<Rightarrow> string \<Rightarrow> Student list" where
  "filteredStudents students searchTerm =
     (if trim searchTerm = [] then students
      else
        let searchLower = toLowerCase searchTerm
        in filter (\<lambda>student.
              includes' (toLowerCase (Student.name student)) searchLower \<or>
              includes' (toLowerCase (Student.email student)) searchLower \<or>
              includes' (toLowerCase (Student.enrolledCourse student)) searchLower)
            students)"

section \<open>JSON text\<close>

text \<open>
  \<open>utils/storage.ts\<close> keeps the collection as the text that \<open>JSON.stringify\<close> writes
  and reads it with \<open>JSON.parse\<close>. Both are the platform's; they are modelled here
  after the JSON grammar. A number keeps its literal (its conversion to a double is not
  modelled). An object is the list of its members in the order of the text; a later member
  of the same key is the one a property read sees.
\<close>

datatype json =
    JNull
  | JBool bool
  | JNumber string
  | JString string
  | JArray "json list"
  | JObject "(string \<times> json) list"

abbreviation DQ :: char where "DQ \<equiv> CHR 0x22"

abbreviation BSL :: char where "BSL \<equiv> CHR 0x5C"

subsection \<open>Writing\<close>

definition hex_digit :: "nat \<Rightarrow> char" where
  "hex_digit n = (if n < 10 then char_of (48 + n) else char_of (87 + n))"

text \<open>
  The quoting of a string: the quote and the backslash are escaped, the control
  characters below U+0020 are written in their short form or as \<open>\u00xx\<close> with
  lower-case digits, every other character stands for itself.
\<close>

definition escape_char :: "char \<Rightarrow> string" where
  "escape_char c =
     (if c = DQ then [BSL, DQ]
      else if c = BSL then [BSL, BSL]
      else if c = CHR 0x08 then [BSL, CHR ''b'']
      else if c = CHR 0x09 then [BSL, CHR ''t'']
      else if c = CHR 0x0A then [BSL, CHR ''n'']
      else if c = CHR 0x0C then [BSL, CHR ''f'']
      else if c = CHR 0x0D then [BSL, CHR ''r'']
      else if (of_char c :: nat) < 32
      then [BSL, CHR ''u'', CHR ''0'', CHR ''0'',
            hex_digit ((of_char c :: nat) div 16), hex_digit ((of_char c :: nat) mod 16)]
      else [c])"

definition quote :: "string \<Rightarrow> string" where
  "quote s = DQ # concat (map escape_char s) @ [DQ]"

fun join :: "string \<Rightarrow> string list \<Rightarrow> string" where
  "join sep [] = []"
| "join sep [x] = x"
| "join sep (x # y # ys) = x @ sep @ join sep (y # ys)"

fun stringify :: "json \<Rightarrow> string" where
  "stringify JNull = ''null''"
| "stringify (JBool b) = (if b then ''true'' else ''false'')"
| "stringify (JNumber n) = n"
| "stringify (JString s) = quote s"
| "stringify (JArray vs) = ''['' @ join '','' (map stringify vs) @ '']''"
| "stringify (JObject ms) =
     ''{'' @ join '','' (map (\<lambda>(k, v). quote k @ '':'' @ stringify v) ms) @ ''}''"

subsection \<open>Reading\<close>

definition json_ws :: "char \<Rightarrow> bool" where
  "json_ws c = (c \<in> set [CHR 0x20, CHR 0x09, CHR 0x0A, CHR 0x0D])"

definition skip_ws :: "string \<Rightarrow> string" where
  "skip_ws s = dropWhile json_ws s"

definition is_digit :: "char \<Rightarrow> bool" where
  "is_digit c = (48 \<le> (of_char c :: nat) \<and> (of_char c :: nat) \<le> 57)"

definition hex_val :: "char \<Rightarrow> nat option" where
  "hex_val c =
     (let n = (of_char c :: nat)
      in if 48 \<le> n \<and> n \<le> 57 then Some (n - 48)
         else if 97 \<le> n \<and> n \<le> 102 then Some (n - 87)
         else if 65 \<le> n \<and> n \<le> 70 then Some (n - 55)
         else None)"

definition hex4 :: "char \<Rightarrow> char \<Rightarrow> char \<Rightarrow> char \<Rightarrow> nat option" where
  "hex4 a b c d =
     (case (hex_val a, hex_val b, hex_val c, hex_val d) of
        (Some x, Some y, Some z, Some w) \<Rightarrow> Some (((x * 16 + y) * 16 + z) * 16 + w)
      | _ \<Rightarrow> None)"

definition unescape :: "char \<Rightarrow> char option" where
  "unescape e =
     (if e = DQ then Some DQ
      else if e = BSL then Some BSL
      else if e = CHR ''/'' then Some (CHR ''/'')
      else if e = CHR ''b'' then Some (CHR 0x08)
      else if e = CHR ''f'' then Some (CHR 0x0C)
      else if e = CHR ''n'' then Some (CHR 0x0A)
      else if e = CHR ''r'' then Some (CHR 0x0D)
      else if e = CHR ''t'' then Some (CHR 0x09)
      else None)"

text \<open>
  \<open>parse_string\<close> reads a string after its opening quote and returns it with the text
  behind the closing quote. A control character must be escaped. An escape \<open>\uXXXX\<close>
  above U+00FF names a code unit outside the strings of this model. The platform reads
  a text with such an escape; here it is refused, like a text that is not JSON. The
  reading of the model is that of the platform on the texts without such an escape, and
  every text that \<open>stringify\<close> writes from the strings of this model is one.
\<close>

fun parse_string :: "string \<Rightarrow> (string \<times> string) option" where
  "parse_string [] = None"
| "parse_string (c # s) =
     (if c = DQ then Some ([], s)
      else if c = BSL then
        (case s of
           [] \<Rightarrow> None
         | e # s' \<Rightarrow>
             if e = CHR ''u'' then
               (case s' of
                  h1 # h2 # h3 # h4 # s'' \<Rightarrow>
                    (case hex4 h1 h2 h3 h4 of
                       None \<Rightarrow> None
                     | Some n \<Rightarrow>
                         if n < 256
                         then map_option (apfst ((#) (char_of n))) (parse_string s'')
                         else None)
                | _ \<Rightarrow> None)
             else
               (case unescape e of
                  None \<Rightarrow> None
                | Some x \<Rightarrow> map_option (apfst ((#) x)) (parse_string s')))
      else if (of_char c :: nat) < 32 then None
      else map_option (apfst ((#) c)) (parse_string s))"

text \<open>
  A number: an optional minus, \<open>0\<close> or a digit sequence without a leading zero, an
  optional fraction and an optional exponent. \<open>parse_number\<close> returns the literal and
  the text behind it.
\<close>

definition digits1 :: "string \<Rightarrow> (string \<times> string) option" where
  "digits1 s =
     (if takeWhile is_digit s = [] then None
      else Some (takeWhile is_digit s, dropWhile is_digit s))"

definition parse_int_part :: "string \<Rightarrow> (string \<times> string) option" where
  "parse_int_part s =
     (case s of
        [] \<Rightarrow> None
      | c # r \<Rightarrow> if c = CHR ''0'' then Some (''0'', r) else digits1 s)"

definition parse_frac :: "string \<Rightarrow> (string \<times> string) option" where
  "parse_frac s =
     (case s of
        [] \<Rightarrow> Some ([], s)
      | c # r \<Rightarrow>
          if c = CHR ''.'' then map_option (apfst ((#) c)) (digits1 r) else Some ([], s))"

definition parse_exp :: "string \<Rightarrow> (string \<times> string) option" where
  "parse_exp s =
     (case s of
        [] \<Rightarrow> Some ([], s)
      | c # r \<Rightarrow>
          if c = CHR ''e'' \<or> c = CHR ''E'' then
            (case r of
               [] \<Rightarrow> None
             | g # r' \<Rightarrow>
                 if g = CHR ''+'' \<or> g = CHR ''-''
                 then map_option (apfst (\<lambda>ds. c # g # ds)) (digits1 r')
                 else map_option (apfst ((#) c)) (digits1 r))
          else Some ([], s))"

definition parse_number :: "string \<Rightarrow> (string \<times> string) option" where
  "parse_number s =
     (let (sign, s1) = (case s of
                          [] \<Rightarrow> ([], s)
                        | c # r \<Rightarrow> if c = CHR ''-'' then ([c], r) else ([], s))
      in case parse_int_part s1 of
           None \<Rightarrow> None
         | Some (i, s2) \<Rightarrow>
             (case parse_frac s2 of
                None \<Rightarrow> None
              | Some (f, s3) \<Rightarrow>
                  (case parse_exp s3 of
                     None \<Rightarrow> None
                   | Some (e, s4) \<Rightarrow> Some (sign @ i @ f @ e, s4))))"

text \<open>
  The value parser. Its first argument bounds the number of nested calls, so that the
  recursion is structural; every call reads at least one character before the next one,
  and \<open>JSON_parse\<close> starts it with twice the length of the text and one more.
  \<open>parse_elements\<close> reads the elements of an array up to its closing bracket,
  \<open>parse_members\<close> the members of an object up to its closing brace.
\<close>

fun parse_value :: "nat \<Rightarrow> string \<Rightarrow> (json \<times> string) option"
  and parse_elements :: "nat \<Rightarrow> string \<Rightarrow> (json list \<times> string) option"
  and parse_members :: "nat \<Rightarrow> string \<Rightarrow> ((string \<times> json) list \<times> string) option"
where
  "parse_value 0 s = None"
| "parse_value (Suc n) s =
     (case skip_ws s of
        [] \<Rightarrow> None
      | c # r \<Rightarrow>
          if c = CHR ''['' then
            (case skip_ws r of
               [] \<Rightarrow> None
             | d # r' \<Rightarrow>
                 if d = CHR '']'' then Some (JArray [], r')
                 else map_option (apfst JArray) (parse_elements n (d # r')))
          else if c = CHR ''{'' then
            (case skip_ws r of
               [] \<Rightarrow> None
             | d # r' \<Rightarrow>
                 if d = CHR ''}'' then Some (JObject [], r')
                 else map_option (apfst JObject) (parse_members n (d # r')))
          else if c = DQ then map_option (apfst JString) (parse_string r)
          else if prefix ''true'' (c # r) then Some (JBool True, drop 4 (c # r))
          else if prefix ''false'' (c # r) then Some (JBool False, drop 5 (c # r))
          else if prefix ''null'' (c # r) then Some (JNull, drop 4 (c # r))
          else map_option (apfst JNumber) (parse_number (c # r)))"
| "parse_elements 0 s = None"
| "parse_elements (Suc n) s =
     (case parse_value n s of
        None \<Rightarrow> None
      | Some (v, rest) \<Rightarrow>
          (case skip_ws rest of
             [] \<Rightarrow> None
           | c # r \<Rightarrow>
               if c = CHR '','' then map_option (apfst ((#) v)) (parse_elements n r)
               else if c = CHR '']'' then Some ([v], r)
               else None))"
| "parse_members 0 s = None"
| "parse_members (Suc n) s =
     (case skip_ws s of
        [] \<Rightarrow> None
      | c # r \<Rightarrow>
          if c = DQ then
            (case parse_string r of
               None \<Rightarrow> None
             | Some (k, rest) \<Rightarrow>
                 (case skip_ws rest of
                    [] \<Rightarrow> None
                  | c2 # r2 \<Rightarrow>
                      if c2 = CHR '':'' then
                        (case parse_value n r2 of
                           None \<Rightarrow> None
                         | Some (v, rest2) \<Rightarrow>
                             (case skip_ws rest2 of
                                [] \<Rightarrow> None
                              | c3 # r3 \<Rightarrow>
                                  if c3 = CHR '','' then
                                    map_option (apfst ((#) (k, v))) (parse_members n r3)
                                  else if c3 = CHR ''}'' then Some ([(k, v)], r3)
                                  else None))
                      else None))
          else None)"

datatype error = SyntaxError | QuotaExceededError

definition JSON_parse :: "string \<Rightarrow> error + json" where
  "JSON_parse text =
     (case parse_value (2 * length text + 1) text of
        None \<Rightarrow> Inl SyntaxError
      | Some (v, rest) \<Rightarrow> if skip_ws rest = [] then Inr v else Inl SyntaxError)"

definition JSON_stringify :: "json \<Rightarrow> string" where
  "JSON_stringify v = stringify v"

subsection \<open>Values without numbers\<close>

fun number_free :: "json \<Rightarrow> bool" where
  "number_free (JNumber n) = False"
| "number_free (JArray vs) = list_all number_free vs"
| "number_free (JObject ms) = list_all (\<lambda>m. number_free (snd m)) ms"
| "number_free v = True"

definition opener :: "char \<Rightarrow> bool" where
  "opener c = (c \<in> set [CHR ''n'', CHR ''t'', CHR ''f'', DQ, CHR ''['', CHR ''{''])"

section \<open>The record store\<close>

text \<open>
  \<open>localStorage\<close>: the entries of this origin, each a key with its value, in the order
  in which the keys came; and the room that the user agent gives the origin, counted in
  the characters of the keys and of the values. \<open>usage\<close> is what the entries take of
  it. \<open>setItem\<close> replaces the value of a key that is there, or adds the entry; it
  raises \<open>QuotaExceededError\<close>, and stores nothing, when the entries would then take
  more than the room.
\<close>

record Storage =
  items :: "(string \<times> string) list"
  quota :: nat

definition getItem :: "Storage \<Rightarrow> string \<Rightarrow> string option" where
  "getItem st k = map_of (items st) k"

definition usage :: "(string \<times> string) list \<Rightarrow> nat" where
  "usage entries = sum_list (map (\<lambda>(k, v). length k + length v) entries)"

definition setItem :: "string \<Rightarrow> string \<Rightarrow> Storage \<Rightarrow> error + Storage" where
  "setItem k v st =
     (if quota st < usage (AList.update k v (items st)) then Inl QuotaExceededError
      else Inr (st\<lparr>items := AList.update k v (items st)\<rparr>))"

definition STORAGE_KEY :: string where
  "STORAGE_KEY = ''students_data''"

text \<open>
  A \<open>Student\<close> object as a JSON value: its properties in the order in which
  \<open>handleSubmit\<close> creates them, which is the order \<open>JSON.stringify\<close> writes and
  \<open>JSON.parse\<close> restores.
\<close>

definition json_of_student :: "Student \<Rightarrow> json" where
  "json_of_student s =
     JObject
       [(''id'', JString (Student.id' s)),
        (''name'', JString (Student.name s)),
        (''email'', JString (Student.email s)),
        (''enrolledCourse'', JString (Student.enrolledCourse s)),
        (''profileImage'', JString (Student.profileImage s)),
        (''dateEnrolled'', JString (Student.dateEnrolled s))]"

definition json_of_students :: "Student list \<Rightarrow> json" where
  "json_of_students students = JArray (map json_of_student students)"

text \<open>
  \<open>getStoredStudents\<close>: the \<open>try\<close> block first, whose outcome is a value or the
  exception of \<open>JSON.parse\<close>; then the function with its \<open>catch\<close>, which logs and
  returns the empty array. \<open>null\<close> and the empty string are falsy. The result is what
  \<open>JSON.parse\<close> returned: the type \<open>Student[]\<close> of the source is not checked when
  the program runs. The console is the list of the logged messages.
\<close>

definition getStoredStudents_try :: "Storage \<Rightarrow> error + json" where
  "getStoredStudents_try st =
     (case getItem st STORAGE_KEY of
        None \<Rightarrow> Inr (JArray [])
      | Some stored \<Rightarrow> if stored = [] then Inr (JArray []) else JSON_parse stored)"

definition getStoredStudents :: "Storage \<Rightarrow> (string \<times> error) list \<Rightarrow> json \<times> (string \<times> error) list" where
  "getStoredStudents st console =
     (case getStoredStudents_try st of
        Inr v \<Rightarrow> (v, console)
      | Inl e \<Rightarrow> (JArray [], console @ [(''Error retrieving students from storage:'', e)]))"

definition saveStudents ::
    "Student list \<Rightarrow> Storage \<Rightarrow> (string \<times> error) list \<Rightarrow> Storage \<times> (string \<times> error) list" where
  "saveStudents students st console =
     (case setItem STORAGE_KEY (JSON_stringify (json_of_students students)) st of
        Inr st' \<Rightarrow> (st', console)
      | Inl e \<Rightarrow> (st, console @ [(''Error saving students to storage:'', e)]))"

fun is_array :: "json \<Rightarrow> bool" where
  "is_array (JArray vs) = True"
| "is_array v = False"

section \<open>The application state and its handlers\<close>

text \<open>
  The state of \<open>App\<close> with its two hooks and of the form: \<open>students\<close> and
  \<open>isLoading\<close> of \<open>useStudents\<close>; \<open>courses\<close>, \<open>coursesLoading\<close> and
  \<open>coursesError\<close> of \<open>useCourses\<close>; \<open>showForm\<close>, \<open>editingStudent\<close> and
  \<open>searchTerm\<close> of \<open>App\<close>; \<open>formData\<close>, \<open>errors\<close> and \<open>isSubmitting\<close> of
  \<open>StudentForm\<close>; and the two things outside: the storage and the console.
\<close>

record App =
  students :: "Student list"
  isLoading :: bool
  courses :: "Course list"
  coursesLoading :: bool
  coursesError :: "string option"
  showForm :: bool
  editingStudent :: "Student option"
  searchTerm :: string
  formData :: FormData
  errors :: FormErrors
  isSubmitting :: bool
  localStorage :: Storage
  console :: "(string \<times> error) list"

text \<open>
  What a submit reads from outside: the result of \<open>generateId()\<close>, the two results of
  \<open>Math.floor(Math.random() * 1000)\<close> and the result of \<open>new Date().toISOString()\<close>.
\<close>

record Env =
  newId :: string
  random1 :: nat
  random2 :: nat
  now :: string

fun decimal :: "nat \<Rightarrow> string" where
  "decimal n = (if n < 10 then [char_of (48 + n)] else decimal (n div 10) @ [char_of (48 + n mod 10)])"

declare decimal.simps [simp del]

definition placeholderImage :: "Env \<Rightarrow> string" where
  "placeholderImage env =
     ''https://images.pexels.com/photos/'' @ decimal (random1 env + 1000)
       @ ''/pexels-photo-'' @ decimal (random2 env + 1000)
       @ ''.jpeg?auto=compress&cs=tinysrgb&w=400''"

text \<open>\<open>a || b\<close> on strings: the empty string is falsy.\<close>

definition or_else :: "string \<Rightarrow> string \<Rightarrow> string" where
  "or_else a b = (if a \<noteq> [] then a else b)"

text \<open>
  \<open>StudentForm.tsx\<close>, \<open>handleSubmit\<close>, lines 130 to 137: the record sent to
  \<open>onSubmit\<close>. \<open>student?.id\<close> is undefined, hence falsy, when there is no student.
\<close>

definition studentData :: "Env \<Rightarrow> Student option \<Rightarrow> FormData \<Rightarrow> Student" where
  "studentData env student fd =
     \<lparr>Student.id' = (case student of None \<Rightarrow> newId env
                                  | Some s \<Rightarrow> or_else (Student.id' s) (newId env)),
      Student.name = trim (FormData.name fd),
      Student.email = toLowerCase (trim (FormData.email fd)),
      Student.enrolledCourse = FormData.enrolledCourse fd,
      Student.profileImage = or_else (FormData.profileImage fd) (placeholderImage env),
      Student.dateEnrolled = (case student of None \<Rightarrow> now env
                                  | Some s \<Rightarrow> or_else (Student.dateEnrolled s) (now env))\<rparr>"

text \<open>The updaters of \<open>useStudents\<close>, as functions of the previous list.\<close>

definition addStudent :: "Student \<Rightarrow> Student list \<Rightarrow> Student list" where
  "addStudent student prev = prev @ [student]"

definition updateStudent :: "Student \<Rightarrow> Student list \<Rightarrow> Student list" where
  "updateStudent updatedStudent prev =
     map (\<lambda>student. if Student.id' student = Student.id' updatedStudent
                     then updatedStudent else student) prev"

definition removeStudent :: "string \<Rightarrow> Student list \<Rightarrow> Student list" where
  "removeStudent studentId prev = filter (\<lambda>student. Student.id' student \<noteq> studentId) prev"

text \<open>
  The effect of \<open>useStudents\<close> that saves: it runs after a render in which
  \<open>students\<close> (or \<open>isLoading\<close>) is a new value, which every \<open>setStudents\<close> call of
  the updaters above produces.
\<close>

definition saveEffect :: "App \<Rightarrow> App" where
  "saveEffect app =
     (if \<not> isLoading app \<and> 0 \<le> length (students app)
      then (case saveStudents (students app) (localStorage app) (console app) of
              (st, c) \<Rightarrow> app\<lparr>localStorage := st, console := c\<rparr>)
      else app)"

text \<open>\<open>App\<close>: the handlers of the header button, of the cards and of the form.\<close>

definition emptyForm :: FormData where
  "emptyForm = \<lparr>FormData.name = [], email = [], enrolledCourse = [], profileImage = []\<rparr>"

text \<open>
  The effect of the form that follows its \<open>student\<close> property: it fills the fields
  from the student, or empties them, and clears the errors.
\<close>

definition formEffect :: "App \<Rightarrow> App" where
  "formEffect app =
     app\<lparr>formData :=
           (case editingStudent app of
              Some student \<Rightarrow>
                \<lparr>FormData.name = Student.name student,
                 FormData.email = Student.email student,
                 FormData.enrolledCourse = Student.enrolledCourse student,
                 FormData.profileImage = Student.profileImage student\<rparr>
            | None \<Rightarrow> emptyForm),
         errors := Map.empty\<rparr>"

definition handleAddStudent :: "App \<Rightarrow> App" where
  "handleAddStudent app = formEffect (app\<lparr>editingStudent := None, showForm := True\<rparr>)"

text \<open>
  The ``Add Student'' button has \<open>disabled={coursesError !== null}\<close>: a click on the
  disabled button reaches no handler.
\<close>

definition clickAddStudent :: "App \<Rightarrow> App" where
  "clickAddStudent app = (if coursesError app \<noteq> None then app else handleAddStudent app)"

definition handleEditStudent :: "Student \<Rightarrow> App \<Rightarrow> App" where
  "handleEditStudent student app =
     formEffect (app\<lparr>editingStudent := Some student, showForm := True\<rparr>)"

definition handleFormCancel :: "App \<Rightarrow> App" where
  "handleFormCancel app = app\<lparr>showForm := False, editingStudent := None\<rparr>"

text \<open>
  \<open>handleInputChange\<close>: the event carries the name of the input and its value. The
  error of the field is cleared when it is set (a message is truthy when not empty); the
  image input has no error.
\<close>

datatype input = InputName | InputEmail | InputEnrolledCourse | InputProfileImage

fun input_field :: "input \<Rightarrow> field option" where
  "input_field InputName = Some Name"
| "input_field InputEmail = Some Email"
| "input_field InputEnrolledCourse = Some EnrolledCourse"
| "input_field InputProfileImage = None"

fun set_input :: "input \<Rightarrow> string \<Rightarrow> FormData \<Rightarrow> FormData" where
  "set_input InputName v fd = fd\<lparr>FormData.name := v\<rparr>"
| "set_input InputEmail v fd = fd\<lparr>FormData.email := v\<rparr>"
| "set_input InputEnrolledCourse v fd = fd\<lparr>FormData.enrolledCourse := v\<rparr>"
| "set_input InputProfileImage v fd = fd\<lparr>FormData.profileImage := v\<rparr>"

definition handleInputChange :: "input \<Rightarrow> string \<Rightarrow> App \<Rightarrow> App" where
  "handleInputChange i v app =
     app\<lparr>formData := set_input i v (formData app),
         errors :=
           (case input_field i of
              None \<Rightarrow> errors app
            | Some f \<Rightarrow>
                (case errors app f of
                   None \<Rightarrow> errors app
                 | Some m \<Rightarrow> if m \<noteq> [] then (errors app)(f := None) else errors app))\<rparr>"

text \<open>\<open>App\<close>, \<open>handleFormSubmit\<close>: an object is truthy, \<open>null\<close> is not.\<close>

definition handleFormSubmit :: "Student \<Rightarrow> App \<Rightarrow> App" where
  "handleFormSubmit sd app =
     (let app = (if editingStudent app \<noteq> None
                 then app\<lparr>students := updateStudent sd (students app)\<rparr>
                 else app\<lparr>students := addStudent sd (students app)\<rparr>)
      in app\<lparr>showForm := False, editingStudent := None\<rparr>)"

text \<open>
  \<open>StudentForm.tsx\<close>, \<open>handleSubmit\<close>. The form's \<open>student\<close> is the
  \<open>editingStudent\<close> of \<open>App\<close>, its \<open>onSubmit\<close> is \<open>handleFormSubmit\<close>. A draft
  that fails \<open>validateForm\<close> returns at once, with the errors stored. Otherwise the
  record is built and submitted; no call inside the \<open>try\<close> block raises, so its
  \<open>catch\<close> logs nothing; \<open>finally\<close> resets \<open>isSubmitting\<close>. The half second of
  delay is not modelled. The saving effect then runs, because \<open>students\<close> was set.
\<close>

definition handleSubmit :: "Env \<Rightarrow> App \<Rightarrow> App" where
  "handleSubmit env app =
     (case validateForm (formData app) of
        (newErrors, valid) \<Rightarrow>
          if \<not> valid then app\<lparr>errors := newErrors\<rparr>
          else
            saveEffect
              ((handleFormSubmit
                  (studentData env (editingStudent app) (formData app))
                  (app\<lparr>errors := newErrors, isSubmitting := True\<rparr>))
               \<lparr>isSubmitting := False\<rparr>))"

text \<open>
  \<open>useCourses\<close> and \<open>fetchCourses\<close>: a fetch starts by setting the loading flag
  and clearing the error; it ends with the courses, or with the message of the failure
  and no course. Whether the mock request fails (\<open>Math.random() < 0.1\<close>) is a
  parameter. \<open>fetchCourses\<close> catches its own failure and returns it in the response,
  so that the \<open>catch\<close> of \<open>fetchCoursesData\<close> is never entered.
\<close>

record ApiResponse =
  data :: "Course list"
  error :: "string option"

definition mockCourses :: "Course list" where
  "mockCourses =
     [\<lparr>Course.id' = 1, name = ''HTML Basics''\<rparr>,
      \<lparr>Course.id' = 2, name = ''CSS Mastery''\<rparr>,
      \<lparr>Course.id' = 3, name = ''JavaScript Pro''\<rparr>,
      \<lparr>Course.id' = 4, name = ''React In Depth''\<rparr>,
      \<lparr>Course.id' = 5, name = ''Node.js Backend''\<rparr>,
      \<lparr>Course.id' = 6, name = ''Python Fundamentals''\<rparr>,
      \<lparr>Course.id' = 7, name = ''Database Design''\<rparr>,
      \<lparr>Course.id' = 8, name = ''UI/UX Design''\<rparr>]"

definition fetchCourses :: "bool \<Rightarrow> ApiResponse" where
  "fetchCourses fails =
     (if fails then \<lparr>data = [], error = Some ''Failed to fetch courses from server''\<rparr>
      else \<lparr>data = mockCourses, error = None\<rparr>)"

definition fetchStarted :: "App \<Rightarrow> App" where
  "fetchStarted app = app\<lparr>coursesLoading := True, coursesError := None\<rparr>"

definition fetchFinished :: "ApiResponse \<Rightarrow> App \<Rightarrow> App" where
  "fetchFinished response app =
     (case error response of
        Some m \<Rightarrow>
          if m \<noteq> [] then app\<lparr>coursesError := Some m, courses := [], coursesLoading := False\<rparr>
          else app\<lparr>courses := data response, coursesLoading := False\<rparr>
      | None \<Rightarrow> app\<lparr>courses := data response, coursesLoading := False\<rparr>)"

text \<open>
  The states the application reaches through its controls, from the state after the
  hydration (with whatever collection it produced). The ``Add Student'' button is
  disabled while there is a course error; a card offers the edit of a listed student;
  the inputs, the cancel and the submit exist while the form is shown; the course
  dropdown is disabled while the courses load, and it offers the empty choice and the
  names of the listed courses; the retry is shown with the course error; a request ends
  only while one is under way. One request is under way at a time: the effect of
  \<open>useCourses\<close> starts one when the application is mounted, and the retry, which
  starts the next, is only shown after a request has failed.
\<close>

definition hydrated :: "Student list \<Rightarrow> Storage \<Rightarrow> App" where
  "hydrated ss st =
     saveEffect
       \<lparr>students = ss, isLoading = False, courses = [], coursesLoading = True,
        coursesError = None, showForm = False, editingStudent = None, searchTerm = [],
        formData = emptyForm, errors = Map.empty, isSubmitting = False,
        localStorage = st, console = []\<rparr>"

inductive reachable :: "App \<Rightarrow> bool" where
  start: "reachable (hydrated ss st)"
| search: "reachable app \<Longrightarrow> reachable (app\<lparr>searchTerm := t\<rparr>)"
| add: "reachable app \<Longrightarrow> reachable (clickAddStudent app)"
| edit: "reachable app \<Longrightarrow> student \<in> set (students app) \<Longrightarrow>
         reachable (handleEditStudent student app)"
| cancel: "reachable app \<Longrightarrow> showForm app \<Longrightarrow> reachable (handleFormCancel app)"
| typing: "reachable app \<Longrightarrow> showForm app \<Longrightarrow> i \<noteq> InputEnrolledCourse \<Longrightarrow>
         reachable (handleInputChange i v app)"
| choose: "reachable app \<Longrightarrow> showForm app \<Longrightarrow> \<not> coursesLoading app \<Longrightarrow>
         v = [] \<or> v \<in> set (map Course.name (courses app)) \<Longrightarrow>
         reachable (handleInputChange InputEnrolledCourse v app)"
| submit: "reachable app \<Longrightarrow> showForm app \<Longrightarrow> reachable (handleSubmit env app)"
| retry: "reachable app \<Longrightarrow> coursesError app \<noteq> None \<Longrightarrow> reachable (fetchStarted app)"
| fetched: "reachable app \<Longrightarrow> coursesLoading app \<Longrightarrow>
         reachable (fetchFinished (fetchCourses fails) app)"


subsection \<open>Sample values\<close>

definition sampleEnv :: Env where
  "sampleEnv = \<lparr>newId = ''m1abc9'', random1 = 5, random2 = 7, now = ''2025-06-01T12:00:00.000Z''\<rparr>"

definition ann :: Student where
  "ann = \<lparr>Student.id' = ''s1'', name = ''Ann'', email = ''ann@x.org'',
          enrolledCourse = ''CSS Mastery'', profileImage = ''p.png'',
          dateEnrolled = ''2024-01-01T00:00:00.000Z''\<rparr>"

definition goodForm :: FormData where
  "goodForm = \<lparr>FormData.name = '' Bob '', email = ''Bob@Mail.com'',
               enrolledCourse = ''HTML Basics'', profileImage = ''b.png''\<rparr>"

definition sampleApp :: App where
  "sampleApp =
     \<lparr>students = [ann], isLoading = False, courses = mockCourses, coursesLoading = False,
      coursesError = None, showForm = True, editingStudent = None, searchTerm = [],
      formData = goodForm, errors = Map.empty, isSubmitting = False,
      localStorage = \<lparr>items = [], quota = 5000\<rparr>, console = []\<rparr>"

definition bob :: Student where
  "bob = \<lparr>Student.id' = ''s2'', name = ''Bob'', email = ''bob@mail.com'',
          enrolledCourse = ''HTML Basics'', profileImage = ''b.png'',
          dateEnrolled = ''2024-02-02T00:00:00.000Z''\<rparr>"

text \<open>
  A storage that is nearly full: the origin has room for 200 characters, and the entry
  of the collection \<open>[ann]\<close> takes 155 of them (13 for the key, 142 for the text).
\<close>

definition fullStore :: Storage where
  "fullStore = \<lparr>items = [(STORAGE_KEY, JSON_stringify (json_of_students [ann]))], quota = 200\<rparr>"

text \<open>
  Two runs from a store that holds one record. In \<open>lostEditApp\<close> the record has an
  empty id; its card is opened for edit and the name is changed. In \<open>undatedApp\<close>
  the record has an empty enrollment date; its card is opened for edit.
\<close>

definition lostEditApp :: App where
  "lostEditApp =
     handleInputChange InputName ''Anna''
       (handleEditStudent (ann\<lparr>Student.id' := []\<rparr>)
         (hydrated [ann\<lparr>Student.id' := []\<rparr>] \<lparr>items = [], quota = 5000\<rparr>))"

definition undatedApp :: App where
  "undatedApp =
     handleEditStudent (ann\<lparr>Student.dateEnrolled := []\<rparr>)
       (hydrated [ann\<lparr>Student.dateEnrolled := []\<rparr>] \<lparr>items = [], quota = 5000\<rparr>)"

subsection \<open>A run that ends with a failed directory\<close>



chapter \<open>The properties\<close>

section \<open>What the regular expression test decides\<close>

lemma nullable_lang: "nullable r = ([] \<in> lang r)"
proof (induction r)
  case (Star r)
  have "concat [] \<in> lang (Star r)"
    unfolding lang.simps by (rule CollectI, rule exI [of _ "[]"]) simp
  then show ?case by simp
qed auto

lemma star_cons:
  assumes "c # w \<in> lang (Star r)"
  shows "\<exists>u v. w = u @ v \<and> c # u \<in> lang r \<and> v \<in> lang (Star r)"
proof -
  from assms obtain ws where ws: "c # w = concat ws" "set ws \<subseteq> lang r" by auto
  then show ?thesis
  proof (induction ws)
    case Nil
    then show ?case by simp
  next
    case (Cons x xs)
    show ?case
    proof (cases x)
      case Nil
      with Cons show ?thesis by simp
    next
      case (Cons y ys)
      with Cons.prems have "y = c" "w = ys @ concat xs" "c # ys \<in> lang r" "set xs \<subseteq> lang r"
        by auto
      then show ?thesis by auto
    qed
  qed
qed

lemma star_consI:
  assumes "c # u \<in> lang r" and "v \<in> lang (Star r)"
  shows "c # u @ v \<in> lang (Star r)"
proof -
  from assms(2) obtain ws where ws: "v = concat ws" "set ws \<subseteq> lang r" by auto
  have "c # u @ v = concat ((c # u) # ws)" using ws by simp
  moreover have "set ((c # u) # ws) \<subseteq> lang r" using ws assms(1) by simp
  ultimately show ?thesis unfolding lang.simps by blast
qed

lemma lang_deriv: "(w \<in> lang (deriv c r)) = (c # w \<in> lang r)"
proof (induction r arbitrary: w)
  case (Seq r s)
  show ?case
  proof
    assume "w \<in> lang (deriv c (Seq r s))"
    then consider (left) u v where "w = u @ v" "u \<in> lang (deriv c r)" "v \<in> lang s"
      | (right) "nullable r" "w \<in> lang (deriv c s)"
      by (auto split: if_splits)
    then show "c # w \<in> lang (Seq r s)"
    proof cases
      case left
      then have "c # u \<in> lang r" using Seq.IH(1) by simp
      then have "(c # u) @ v \<in> lang (Seq r s)" using left(3) unfolding lang.simps by blast
      then show ?thesis using left(1) by simp
    next
      case right
      then have "[] \<in> lang r" "c # w \<in> lang s" using Seq.IH(2) nullable_lang by auto
      then have "[] @ (c # w) \<in> lang (Seq r s)" unfolding lang.simps by blast
      then show ?thesis by simp
    qed
  next
    assume "c # w \<in> lang (Seq r s)"
    then obtain u v where uv: "c # w = u @ v" "u \<in> lang r" "v \<in> lang s" by auto
    show "w \<in> lang (deriv c (Seq r s))"
    proof (cases u)
      case Nil
      with uv have "nullable r" "w \<in> lang (deriv c s)"
        using Seq.IH(2) nullable_lang by auto
      then show ?thesis by simp
    next
      case (Cons y ys)
      with uv have "w = ys @ v" "ys \<in> lang (deriv c r)" using Seq.IH(1) by auto
      then show ?thesis using uv(3) by auto
    qed
  qed
next
  case (Star r)
  show ?case
  proof
    assume "w \<in> lang (deriv c (Star r))"
    then obtain u v where "w = u @ v" "u \<in> lang (deriv c r)" "v \<in> lang (Star r)"
      by auto
    then show "c # w \<in> lang (Star r)"
      using Star.IH star_consI [of c u r v] by simp
  next
    assume "c # w \<in> lang (Star r)"
    then obtain u v where "w = u @ v" "c # u \<in> lang r" "v \<in> lang (Star r)"
      using star_cons by blast
    then show "w \<in> lang (deriv c (Star r))"
      using Star.IH by auto
  qed
qed auto

lemma lang_derivs: "(w \<in> lang (derivs r s)) = (s @ w \<in> lang r)"
  by (induction s arbitrary: r) (simp_all add: lang_deriv)

lemma test_lang: "test r s = (s \<in> lang r)"
  using lang_derivs [of "[]" r s] by (simp add: test_def nullable_lang)

lemma lang_Seq_iff: "(w \<in> lang (Seq r s)) = (\<exists>u v. w = u @ v \<and> u \<in> lang r \<and> v \<in> lang s)"
  by auto

lemma lang_Chr_Seq_iff: "(w \<in> lang (Seq (Chr c) s)) = (\<exists>v. w = c # v \<and> v \<in> lang s)"
  by auto

lemma lang_Star_NotIn:
  "(w \<in> lang (Star (NotIn its))) = (\<forall>c \<in> set w. \<not> list_ex (\<lambda>i. in_item i c) its)"
proof
  assume "w \<in> lang (Star (NotIn its))"
  then obtain ws where ws: "w = concat ws" "set ws \<subseteq> lang (NotIn its)" by auto
  then show "\<forall>c \<in> set w. \<not> list_ex (\<lambda>i. in_item i c) its"
    by auto
next
  assume ok: "\<forall>c \<in> set w. \<not> list_ex (\<lambda>i. in_item i c) its"
  have "w = concat (map (\<lambda>c. [c]) w)" by (induction w) simp_all
  moreover have "set (map (\<lambda>c. [c]) w) \<subseteq> lang (NotIn its)" using ok by auto
  ultimately show "w \<in> lang (Star (NotIn its))" unfolding lang.simps(7) by blast
qed

lemma lang_NotIn_iff:
  "(u \<in> lang (NotIn its)) = (\<exists>c. u = [c] \<and> \<not> list_ex (\<lambda>i. in_item i c) its)"
  by auto

lemma lang_Plus_NotIn:
  "(w \<in> lang (Plus (NotIn its))) =
     (w \<noteq> [] \<and> (\<forall>c \<in> set w. \<not> list_ex (\<lambda>i. in_item i c) its))"
proof -
  have "(w \<in> lang (Plus (NotIn its))) =
          (\<exists>u v. w = u @ v \<and> u \<in> lang (NotIn its) \<and> v \<in> lang (Star (NotIn its)))"
    unfolding Plus_def by (rule lang_Seq_iff)
  also have "\<dots> = (\<exists>c v. w = c # v \<and> \<not> list_ex (\<lambda>i. in_item i c) its
                      \<and> (\<forall>c \<in> set v. \<not> list_ex (\<lambda>i. in_item i c) its))"
    unfolding lang_NotIn_iff lang_Star_NotIn
  proof (intro iffI; elim exE conjE)
    fix u v c
    assume "w = u @ v" "u = [c]" "\<not> list_ex (\<lambda>i. in_item i c) its"
      "\<forall>c \<in> set v. \<not> list_ex (\<lambda>i. in_item i c) its"
    then show "\<exists>c v. w = c # v \<and> \<not> list_ex (\<lambda>i. in_item i c) its
                      \<and> (\<forall>c \<in> set v. \<not> list_ex (\<lambda>i. in_item i c) its)"
      by simp
  next
    fix c v
    assume "w = c # v" "\<not> list_ex (\<lambda>i. in_item i c) its"
      "\<forall>c \<in> set v. \<not> list_ex (\<lambda>i. in_item i c) its"
    then have "w = [c] @ v \<and> (\<exists>d. [c] = [d] \<and> \<not> list_ex (\<lambda>i. in_item i d) its)
                 \<and> (\<forall>c \<in> set v. \<not> list_ex (\<lambda>i. in_item i c) its)"
      by simp
    then show "\<exists>u v. w = u @ v \<and> (\<exists>c. u = [c] \<and> \<not> list_ex (\<lambda>i. in_item i c) its)
                 \<and> (\<forall>c \<in> set v. \<not> list_ex (\<lambda>i. in_item i c) its)"
      by blast
  qed
  also have "\<dots> = (w \<noteq> [] \<and> (\<forall>c \<in> set w. \<not> list_ex (\<lambda>i. in_item i c) its))"
    by (cases w) auto
  finally show ?thesis .
qed

lemma lang_email_part:
  "(w \<in> lang (Plus (NotIn [ClassSpace, ClassChar (CHR ''@'')]))) = email_part w"
  unfolding lang_Plus_NotIn email_part_def by simp

lemma validateEmail_iff: "validateEmail e = local_domain_tld e"
proof -
  let ?P = "Plus (NotIn [ClassSpace, ClassChar (CHR ''@'')])"
  have "(e \<in> lang emailRegex) =
          (\<exists>l d t. e = l @ CHR ''@'' # d @ CHR ''.'' # t \<and> l \<in> lang ?P \<and> d \<in> lang ?P \<and> t \<in> lang ?P)"
    unfolding emailRegex_def lang_Seq_iff [of _ ?P] lang_Chr_Seq_iff by blast
  then show ?thesis
    unfolding validateEmail_def test_lang local_domain_tld_def lang_email_part .
qed

lemma dropWhile_eq_Nil_iff: "(dropWhile P xs = []) = (\<forall>x \<in> set xs. P x)"
  by (induction xs) auto

lemma dropWhile_all_append: "\<forall>x \<in> set xs. P x \<Longrightarrow> dropWhile P (xs @ ys) = dropWhile P ys"
  by (induction xs) auto

lemma dropWhile_hd_id: "xs \<noteq> [] \<Longrightarrow> \<not> P (hd xs) \<Longrightarrow> dropWhile P xs = xs"
  by (cases xs) simp_all

lemma trim_eq_Nil: "(trim s = []) = (\<forall>c \<in> set s. isWhiteSpace c)"
proof -
  have "(\<forall>c \<in> set (dropWhile isWhiteSpace s). isWhiteSpace c) = (dropWhile isWhiteSpace s = [])"
  proof (cases "dropWhile isWhiteSpace s")
    case Nil
    show ?thesis unfolding Nil by simp
  next
    case (Cons y ys)
    then have "\<not> isWhiteSpace y" using hd_dropWhile [of isWhiteSpace s] by simp
    then show ?thesis unfolding Cons by auto
  qed
  then have "(trim s = []) = (dropWhile isWhiteSpace s = [])"
    unfolding trim_def rev_is_Nil_conv dropWhile_eq_Nil_iff set_rev .
  then show ?thesis
    unfolding dropWhile_eq_Nil_iff .
qed

lemma trim_surround:
  assumes "e \<noteq> []" "\<not> isWhiteSpace (hd e)" "\<not> isWhiteSpace (last e)"
    and "\<forall>c \<in> set pre. isWhiteSpace c" "\<forall>c \<in> set post. isWhiteSpace c"
  shows "trim (pre @ e @ post) = e"
proof -
  have "dropWhile isWhiteSpace (e @ post) = e @ post"
    using assms(1,2) by (simp add: dropWhile_hd_id)
  then have 1: "dropWhile isWhiteSpace (pre @ e @ post) = e @ post"
    using assms(4) by (simp add: dropWhile_all_append)
  have "hd (rev e) = last e" using assms(1) by (simp add: hd_rev)
  then have "dropWhile isWhiteSpace (rev e) = rev e"
    using assms(1,3) by (simp add: dropWhile_hd_id)
  then have 2: "dropWhile isWhiteSpace (rev post @ rev e) = rev e"
    using assms(5) by (simp add: dropWhile_all_append)
  show ?thesis unfolding trim_def 1 using 2 by simp
qed

lemma email_part_ends: "email_part p \<Longrightarrow> \<not> isWhiteSpace (hd p) \<and> \<not> isWhiteSpace (last p)"
  by (cases p) (auto simp: email_part_def)

lemma local_domain_tld_chars:
  assumes "local_domain_tld e"
  shows "e \<noteq> [] \<and> \<not> isWhiteSpace (hd e) \<and> \<not> isWhiteSpace (last e) \<and> (\<forall>c \<in> set e. \<not> isWhiteSpace c)"
proof -
  from assms obtain l d t where e: "e = l @ CHR ''@'' # d @ CHR ''.'' # t"
    and p: "email_part l" "email_part d" "email_part t"
    unfolding local_domain_tld_def by blast
  have ws: "\<not> isWhiteSpace (CHR ''@'')" "\<not> isWhiteSpace (CHR ''.'')"
    by (simp_all add: isWhiteSpace_def)
  have "hd e = hd l" "last e = last t" using e p by (auto simp: email_part_def)
  then show ?thesis using e p ws email_part_ends [OF p(1)] email_part_ends [OF p(3)]
    by (auto simp: email_part_def)
qed

lemma validateForm_Name:
  "fst (validateForm fd) Name =
     (if trim (FormData.name fd) = [] then Some ''Name is required''
      else if length (trim (FormData.name fd)) < 2 then Some ''Name must be at least 2 characters''
      else None)"
  by (simp add: validateForm_def Let_def)

lemma validateForm_Email:
  "fst (validateForm fd) Email =
     (if trim (FormData.email fd) = [] then Some ''Email is required''
      else if \<not> validateEmail (FormData.email fd) then Some ''Please enter a valid email address''
      else None)"
  by (simp add: validateForm_def Let_def)

lemma validateForm_EnrolledCourse:
  "fst (validateForm fd) EnrolledCourse =
     (if FormData.enrolledCourse fd = [] then Some ''Please select a course'' else None)"
  by (simp add: validateForm_def Let_def)

lemma validateForm_snd: "snd (validateForm fd) = (dom (fst (validateForm fd)) = {})"
  by (simp add: validateForm_def Let_def)

lemma field_dom_empty: "(dom (m :: FormErrors) = {}) = (m Name = None \<and> m Email = None \<and> m EnrolledCourse = None)"
proof
  assume "dom m = {}" then show "m Name = None \<and> m Email = None \<and> m EnrolledCourse = None" by auto
next
  assume a: "m Name = None \<and> m Email = None \<and> m EnrolledCourse = None"
  have "m f = None" for f using a by (cases f) auto
  then show "dom m = {}" by auto
qed

lemma local_domain_tld_at_dot:
  assumes "local_domain_tld e"
  shows "CHR ''@'' \<in> set e \<and> CHR ''.'' \<in> set (dropWhile (\<lambda>c. c \<noteq> CHR ''@'') e)"
proof -
  from assms obtain l d t where e: "e = l @ CHR ''@'' # d @ CHR ''.'' # t"
    and l: "email_part l"
    unfolding local_domain_tld_def by blast
  have "\<forall>c \<in> set l. c \<noteq> CHR ''@''" using l by (simp add: email_part_def)
  then have "dropWhile (\<lambda>c. c \<noteq> CHR ''@'') e = CHR ''@'' # d @ CHR ''.'' # t"
    unfolding e by (simp add: dropWhile_all_append)
  then show ?thesis using e by simp
qed

section \<open>The validation rules\<close>

lemma email_part_spec: "email_part p \<Longrightarrow> spec_email_part p"
  by (simp add: email_part_def spec_email_part_def)

lemma local_domain_tld_spec: "local_domain_tld e \<Longrightarrow> spec_local_domain_tld e"
  unfolding local_domain_tld_def spec_local_domain_tld_def
  using email_part_spec by blast

text \<open>
  C5, as the specification has it: an email that is not empty after trimming is flagged
  exactly when it fails the pattern of a non-whitespace local part, an at sign, a
  non-whitespace domain, a dot and a non-whitespace last segment. The email \<open>a@b@c.d\<close>
  has that form, with the local part \<open>a@b\<close>, the domain \<open>c\<close> and the last segment
  \<open>d\<close>, none of which holds white space; and it is flagged, because the expression
  of the source admits no at sign inside a part.
\<close>

theorem validate_email_counterexample:
  "spec_local_domain_tld ''a@b@c.d''
   \<and> trim ''a@b@c.d'' = ''a@b@c.d''
   \<and> validateEmail ''a@b@c.d'' = False
   \<and> fst (validateForm \<lparr>FormData.name = ''Ann'', email = ''a@b@c.d'',
         enrolledCourse = ''CSS Mastery'', profileImage = []\<rparr>) Email
       = Some ''Please enter a valid email address''"
proof -
  have "''a@b@c.d'' = ''a@b'' @ CHR ''@'' # ''c'' @ CHR ''.'' # ''d''" by simp
  moreover have "spec_email_part ''a@b''" "spec_email_part ''c''" "spec_email_part ''d''"
    by (simp_all add: spec_email_part_def isWhiteSpace_def)
  ultimately have s: "spec_local_domain_tld ''a@b@c.d''"
    unfolding spec_local_domain_tld_def by blast
  have t: "trim ''a@b@c.d'' = ''a@b@c.d''"
    by (simp add: trim_def isWhiteSpace_def)
  have v: "\<not> validateEmail ''a@b@c.d''"
    by (simp add: validateEmail_def test_def emailRegex_def Plus_def isWhiteSpace_def)
  show ?thesis
    using s t v by (simp add: validateForm_Email)
qed

text \<open>
  C5, amended. For every draft, the email field is flagged ``Email is required'' when it
  is empty after trimming; otherwise it is flagged ``Please enter a valid email address''
  exactly when it is not of the form local@domain.tld, each of the three parts non-empty
  and free of white space and of the at sign. In particular an email without an at sign,
  or without a dot after the at sign, is flagged, and \<open>a@b.com\<close> is not.
\<close>

theorem validate_email_rule:
  "fst (validateForm fd) Email =
     (if trim (FormData.email fd) = [] then Some ''Email is required''
      else if local_domain_tld (FormData.email fd) then None
      else Some ''Please enter a valid email address'')
   \<and> (CHR ''@'' \<notin> set (FormData.email fd)
        \<or> CHR ''.'' \<notin> set (dropWhile (\<lambda>c. c \<noteq> CHR ''@'') (FormData.email fd))
      \<longrightarrow> fst (validateForm fd) Email \<noteq> None)
   \<and> fst (validateForm (fd\<lparr>FormData.email := ''a@b.com''\<rparr>)) Email = None"
proof (intro conjI impI)
  show "fst (validateForm fd) Email =
     (if trim (FormData.email fd) = [] then Some ''Email is required''
      else if local_domain_tld (FormData.email fd) then None
      else Some ''Please enter a valid email address'')"
    by (simp add: validateForm_Email validateEmail_iff)
next
  assume "CHR ''@'' \<notin> set (FormData.email fd)
        \<or> CHR ''.'' \<notin> set (dropWhile (\<lambda>c. c \<noteq> CHR ''@'') (FormData.email fd))"
  then have "\<not> local_domain_tld (FormData.email fd)"
    using local_domain_tld_at_dot by blast
  then show "fst (validateForm fd) Email \<noteq> None"
    by (simp add: validateForm_Email validateEmail_iff)
next
  have "validateEmail ''a@b.com''"
    by (simp add: validateEmail_def test_def emailRegex_def Plus_def isWhiteSpace_def)
  moreover have "trim ''a@b.com'' \<noteq> []"
    by (simp add: trim_def isWhiteSpace_def)
  ultimately show "fst (validateForm (fd\<lparr>FormData.email := ''a@b.com''\<rparr>)) Email = None"
    by (simp add: validateForm_Email)
qed

theorem validate_email_rule_witness:
  "CHR ''@'' \<notin> set ''ann.example.com''
   \<and> fst (validateForm \<lparr>FormData.name = ''Ann'', email = ''ann.example.com'',
         enrolledCourse = ''CSS Mastery'', profileImage = []\<rparr>) Email
       = Some ''Please enter a valid email address''
   \<and> fst (validateForm \<lparr>FormData.name = ''Ann'', email = ''   '',
         enrolledCourse = ''CSS Mastery'', profileImage = []\<rparr>) Email
       = Some ''Email is required''
   \<and> fst (validateForm \<lparr>FormData.name = ''Ann'', email = ''a@b.com'',
         enrolledCourse = ''CSS Mastery'', profileImage = []\<rparr>) Email = None"
proof -
  have 1: "trim ''ann.example.com'' \<noteq> []" "trim ''   '' = []"
    by (simp_all add: trim_def isWhiteSpace_def)
  have 2: "\<not> local_domain_tld ''ann.example.com''"
    unfolding validateEmail_iff [symmetric]
    by (simp add: validateEmail_def test_def emailRegex_def Plus_def isWhiteSpace_def)
  show ?thesis
    using 1 2
      validate_email_rule [of "\<lparr>FormData.name = ''Ann'', email = ''ann.example.com'',
         enrolledCourse = ''CSS Mastery'', profileImage = []\<rparr>"]
      validate_email_rule [of "\<lparr>FormData.name = ''Ann'', email = ''   '',
         enrolledCourse = ''CSS Mastery'', profileImage = []\<rparr>"]
    by simp
qed

text \<open>
  C6. For every draft, the name field is flagged ``Name is required'' when it is empty
  after trimming and ``Name must be at least 2 characters'' when the trimmed name has
  fewer than two characters (and is not empty); the course field is flagged exactly when
  it is empty; and the error set is empty, which is what \<open>validateForm\<close> returns, if
  and only if the name, email and course checks all pass.
\<close>

theorem validate_name_course_rule:
  "fst (validateForm fd) Name =
     (if trim (FormData.name fd) = [] then Some ''Name is required''
      else if length (trim (FormData.name fd)) < 2
      then Some ''Name must be at least 2 characters''
      else None)
   \<and> fst (validateForm fd) EnrolledCourse =
       (if FormData.enrolledCourse fd = [] then Some ''Please select a course'' else None)
   \<and> snd (validateForm fd) = (dom (fst (validateForm fd)) = {})
   \<and> snd (validateForm fd) =
       (2 \<le> length (trim (FormData.name fd))
        \<and> trim (FormData.email fd) \<noteq> [] \<and> validateEmail (FormData.email fd)
        \<and> FormData.enrolledCourse fd \<noteq> [])"
proof (intro conjI)
  show "snd (validateForm fd) =
       (2 \<le> length (trim (FormData.name fd))
        \<and> trim (FormData.email fd) \<noteq> [] \<and> validateEmail (FormData.email fd)
        \<and> FormData.enrolledCourse fd \<noteq> [])"
    unfolding validateForm_snd field_dom_empty
      validateForm_Name validateForm_Email validateForm_EnrolledCourse
    by auto
qed (simp_all add: validateForm_Name validateForm_EnrolledCourse validateForm_snd)

theorem validate_name_course_rule_witness:
  "fst (validateForm \<lparr>FormData.name = '' A '', email = ''a@b.com'',
         enrolledCourse = [], profileImage = []\<rparr>) Name
       = Some ''Name must be at least 2 characters''
   \<and> fst (validateForm \<lparr>FormData.name = '' A '', email = ''a@b.com'',
         enrolledCourse = [], profileImage = []\<rparr>) EnrolledCourse
       = Some ''Please select a course''
   \<and> \<not> snd (validateForm \<lparr>FormData.name = '' A '', email = ''a@b.com'',
         enrolledCourse = [], profileImage = []\<rparr>)
   \<and> snd (validateForm \<lparr>FormData.name = ''Ann'', email = ''a@b.com'',
         enrolledCourse = ''CSS Mastery'', profileImage = []\<rparr>)"
proof -
  have 1: "trim '' A '' = ''A''" "trim ''Ann'' = ''Ann''" "trim ''a@b.com'' = ''a@b.com''"
    by (simp_all add: trim_def isWhiteSpace_def)
  have 2: "validateEmail ''a@b.com''"
    by (simp add: validateEmail_def test_def emailRegex_def Plus_def isWhiteSpace_def)
  note r1 = validate_name_course_rule [of "\<lparr>FormData.name = '' A '', email = ''a@b.com'',
         enrolledCourse = [], profileImage = []\<rparr>"]
  note r2 = validate_name_course_rule [of "\<lparr>FormData.name = ''Ann'', email = ''a@b.com'',
         enrolledCourse = ''CSS Mastery'', profileImage = []\<rparr>"]
  show ?thesis
  proof (intro conjI)
    show "fst (validateForm \<lparr>FormData.name = '' A '', email = ''a@b.com'',
         enrolledCourse = [], profileImage = []\<rparr>) Name
       = Some ''Name must be at least 2 characters''"
      using r1 [THEN conjunct1] 1 by simp
    show "fst (validateForm \<lparr>FormData.name = '' A '', email = ''a@b.com'',
         enrolledCourse = [], profileImage = []\<rparr>) EnrolledCourse
       = Some ''Please select a course''"
      using r1 [THEN conjunct2, THEN conjunct1] by simp
    show "\<not> snd (validateForm \<lparr>FormData.name = '' A '', email = ''a@b.com'',
         enrolledCourse = [], profileImage = []\<rparr>)"
      using r1 [THEN conjunct2, THEN conjunct2, THEN conjunct2] by simp
    show "snd (validateForm \<lparr>FormData.name = ''Ann'', email = ''a@b.com'',
         enrolledCourse = ''CSS Mastery'', profileImage = []\<rparr>)"
      using r2 [THEN conjunct2, THEN conjunct2, THEN conjunct2] 1 2 by simp
  qed
qed

section \<open>The search filter\<close>

lemma includes'_sublist: "includes' s t = sublist t s"
  by (induction s) (simp_all add: sublist_Cons_right)

text \<open>
  C4. For every collection and search term: a term that is empty or holds only white
  space gives the whole collection; any other term gives exactly the records for which
  the lower-cased term is a substring of the lower-cased name, of the lower-cased email or
  of the lower-cased course; and the result keeps the order of the collection.
\<close>

theorem search_filter:
  "filteredStudents ss term =
     (if \<forall>c \<in> set term. isWhiteSpace c then ss
      else filter (\<lambda>s.
             sublist (toLowerCase term) (toLowerCase (Student.name s)) \<or>
             sublist (toLowerCase term) (toLowerCase (Student.email s)) \<or>
             sublist (toLowerCase term) (toLowerCase (Student.enrolledCourse s)))
           ss)
   \<and> subseq (filteredStudents ss term) ss"
proof
  show "filteredStudents ss term =
     (if \<forall>c \<in> set term. isWhiteSpace c then ss
      else filter (\<lambda>s.
             sublist (toLowerCase term) (toLowerCase (Student.name s)) \<or>
             sublist (toLowerCase term) (toLowerCase (Student.email s)) \<or>
             sublist (toLowerCase term) (toLowerCase (Student.enrolledCourse s)))
           ss)"
    by (simp add: filteredStudents_def trim_eq_Nil includes'_sublist Let_def)
  show "subseq (filteredStudents ss term) ss"
    by (simp add: filteredStudents_def Let_def)
qed

theorem search_filter_witness:
  "filteredStudents
     [\<lparr>Student.id' = ''1'', name = ''Ann'', email = ''ann@x.org'', enrolledCourse = ''CSS Mastery'',
        profileImage = ''p'', dateEnrolled = ''2024-01-01T00:00:00.000Z''\<rparr>,
      \<lparr>Student.id' = ''2'', name = ''Carl'', email = ''x@bob.com'', enrolledCourse = ''HTML Basics'',
        profileImage = ''q'', dateEnrolled = ''2024-01-02T00:00:00.000Z''\<rparr>]
     ''BoB''
   = [\<lparr>Student.id' = ''2'', name = ''Carl'', email = ''x@bob.com'', enrolledCourse = ''HTML Basics'',
        profileImage = ''q'', dateEnrolled = ''2024-01-02T00:00:00.000Z''\<rparr>]
   \<and> filteredStudents
     [\<lparr>Student.id' = ''1'', name = ''Ann'', email = ''ann@x.org'', enrolledCourse = ''CSS Mastery'',
        profileImage = ''p'', dateEnrolled = ''2024-01-01T00:00:00.000Z''\<rparr>]
     ''  ''
   = [\<lparr>Student.id' = ''1'', name = ''Ann'', email = ''ann@x.org'', enrolledCourse = ''CSS Mastery'',
        profileImage = ''p'', dateEnrolled = ''2024-01-01T00:00:00.000Z''\<rparr>]"
proof -
  have ws: "\<not> (\<forall>c \<in> set ''BoB''. isWhiteSpace c)" "\<forall>c \<in> set ''  ''. isWhiteSpace c"
    by (simp_all add: isWhiteSpace_def)
  have low: "toLowerCase ''BoB'' = ''bob''" "toLowerCase ''Ann'' = ''ann''"
    "toLowerCase ''ann@x.org'' = ''ann@x.org''" "toLowerCase ''CSS Mastery'' = ''css mastery''"
    "toLowerCase ''Carl'' = ''carl''" "toLowerCase ''x@bob.com'' = ''x@bob.com''"
    "toLowerCase ''HTML Basics'' = ''html basics''"
    by code_simp+
  have sub: "\<not> sublist ''bob'' ''ann''" "\<not> sublist ''bob'' ''ann@x.org''"
    "\<not> sublist ''bob'' ''css mastery''" "sublist ''bob'' ''x@bob.com''"
    unfolding includes'_sublist [symmetric] by simp_all
  show ?thesis
    using search_filter [of "[\<lparr>Student.id' = ''1'', name = ''Ann'', email = ''ann@x.org'', enrolledCourse = ''CSS Mastery'',
        profileImage = ''p'', dateEnrolled = ''2024-01-01T00:00:00.000Z''\<rparr>,
      \<lparr>Student.id' = ''2'', name = ''Carl'', email = ''x@bob.com'', enrolledCourse = ''HTML Basics'',
        profileImage = ''q'', dateEnrolled = ''2024-01-02T00:00:00.000Z''\<rparr>]" "''BoB''", THEN conjunct1]
      search_filter [of "[\<lparr>Student.id' = ''1'', name = ''Ann'', email = ''ann@x.org'', enrolledCourse = ''CSS Mastery'',
        profileImage = ''p'', dateEnrolled = ''2024-01-01T00:00:00.000Z''\<rparr>]" "''  ''", THEN conjunct1]
      ws low sub
    by simp
qed

section \<open>JSON: reading back what was written\<close>

lemma hex_val_hex_digit: "n < 16 \<Longrightarrow> hex_val (hex_digit n) = Some n"
  by (auto simp: hex_val_def hex_digit_def Let_def)

lemma hex_val_zero: "hex_val (CHR ''0'') = Some 0"
  by (simp add: hex_val_def)

lemma parse_string_escape_char:
  "parse_string (escape_char c @ rest) = map_option (apfst ((#) c)) (parse_string rest)"
proof -
  consider (dq) "c = DQ" | (bsl) "c = BSL"
    | (short) "c \<in> {CHR 0x08, CHR 0x09, CHR 0x0A, CHR 0x0C, CHR 0x0D}"
    | (ctl) "c \<noteq> DQ" "c \<noteq> BSL" "c \<notin> {CHR 0x08, CHR 0x09, CHR 0x0A, CHR 0x0C, CHR 0x0D}"
        "(of_char c :: nat) < 32"
    | (plain) "c \<noteq> DQ" "c \<noteq> BSL" "\<not> (of_char c :: nat) < 32"
    by blast
  then show ?thesis
  proof cases
    case dq
    then show ?thesis by (simp add: escape_char_def unescape_def)
  next
    case bsl
    then show ?thesis by (simp add: escape_char_def unescape_def)
  next
    case short
    then show ?thesis by (auto simp: escape_char_def unescape_def)
  next
    case ctl
    let ?n = "of_char c :: nat"
    have d: "?n div 16 < 16" "?n mod 16 < 16" using ctl(4) by simp_all
    have "hex4 (CHR ''0'') (CHR ''0'') (hex_digit (?n div 16)) (hex_digit (?n mod 16)) = Some ?n"
      unfolding hex4_def hex_val_zero hex_val_hex_digit [OF d(1)] hex_val_hex_digit [OF d(2)]
      by simp
    moreover have "?n < 256" using ctl(4) by simp
    moreover have "escape_char c = [BSL, CHR ''u'', CHR ''0'', CHR ''0'',
            hex_digit (?n div 16), hex_digit (?n mod 16)]"
      using ctl by (simp add: escape_char_def)
    ultimately show ?thesis by simp
  next
    case plain
    then have "escape_char c = [c]" by (auto simp: escape_char_def)
    then show ?thesis using plain by simp
  qed
qed

lemma parse_string_escaped:
  "parse_string (concat (map escape_char s) @ DQ # rest) = Some (s, rest)"
  by (induction s) (simp_all add: parse_string_escape_char)

lemma opener_facts:
  "opener c \<Longrightarrow> \<not> json_ws c \<and> c \<noteq> CHR '']'' \<and> c \<noteq> CHR ''}''"
  by (auto simp: opener_def json_ws_def)

lemma skip_ws_Cons: "\<not> json_ws c \<Longrightarrow> skip_ws (c # s) = c # s"
  by (simp add: skip_ws_def)

lemma stringify_opener:
  "number_free v \<Longrightarrow> \<exists>c t. stringify v = c # t \<and> opener c"
  by (cases v) (auto simp: opener_def quote_def)

lemma join_Cons_opener:
  assumes "vs \<noteq> []" "\<exists>c t. f (hd vs) = c # t \<and> opener c"
  shows "\<exists>c t. join sep (map f vs) = c # t \<and> opener c"
proof (cases vs)
  case Nil
  with assms show ?thesis by simp
next
  case (Cons v ws)
  with assms show ?thesis by (cases ws) auto
qed

lemma parse_value_literals:
  "parse_value (Suc n) (''null'' @ r) = Some (JNull, r)"
  "parse_value (Suc n) (''true'' @ r) = Some (JBool True, r)"
  "parse_value (Suc n) (''false'' @ r) = Some (JBool False, r)"
  by (simp_all add: skip_ws_def json_ws_def)

lemma parse_value_string:
  "parse_value (Suc n) (DQ # t) = map_option (apfst JString) (parse_string t)"
  by (simp add: skip_ws_def json_ws_def)

lemma parse_value_empty:
  "parse_value (Suc n) (''[]'' @ r) = Some (JArray [], r)"
  "parse_value (Suc n) (''{}'' @ r) = Some (JObject [], r)"
  by (simp_all add: skip_ws_def json_ws_def)

lemma parse_value_array:
  "opener d \<Longrightarrow>
   parse_value (Suc n) (CHR ''['' # d # t) = map_option (apfst JArray) (parse_elements n (d # t))"
  using opener_facts [of d] by (simp add: skip_ws_def json_ws_def)

lemma parse_value_object:
  "parse_value (Suc n) (CHR ''{'' # DQ # t) = map_option (apfst JObject) (parse_members n (DQ # t))"
  by (simp add: skip_ws_def json_ws_def)

lemma parse_elements_more:
  "parse_value n s = Some (v, CHR '','' # r) \<Longrightarrow>
   parse_elements (Suc n) s = map_option (apfst ((#) v)) (parse_elements n r)"
  by (simp add: skip_ws_def json_ws_def)

lemma parse_elements_last:
  "parse_value n s = Some (v, CHR '']'' # r) \<Longrightarrow> parse_elements (Suc n) s = Some ([v], r)"
  by (simp add: skip_ws_def json_ws_def)

lemma parse_members_more:
  "parse_string t = Some (k, CHR '':'' # t2) \<Longrightarrow> parse_value n t2 = Some (v, CHR '','' # r) \<Longrightarrow>
   parse_members (Suc n) (DQ # t) = map_option (apfst ((#) (k, v))) (parse_members n r)"
  by (simp add: skip_ws_def json_ws_def)

lemma parse_members_last:
  "parse_string t = Some (k, CHR '':'' # t2) \<Longrightarrow> parse_value n t2 = Some (v, CHR ''}'' # r) \<Longrightarrow>
   parse_members (Suc n) (DQ # t) = Some ([(k, v)], r)"
  by (simp add: skip_ws_def json_ws_def)

declare parse_value.simps [simp del] parse_elements.simps [simp del] parse_members.simps [simp del]

lemma elements_roundtrip:
  assumes "vs \<noteq> []"
    and "\<And>v n r. v \<in> set vs \<Longrightarrow> 2 * length (stringify v) \<le> n \<Longrightarrow>
           parse_value n (stringify v @ r) = Some (v, r)"
    and "2 * length (join '','' (map stringify vs)) + 1 \<le> m"
  shows "parse_elements m (join '','' (map stringify vs) @ CHR '']'' # r) = Some (vs, r)"
  using assms
proof (induction vs arbitrary: m)
  case Nil
  then show ?case by simp
next
  case (Cons v ws)
  from Cons.prems(3) obtain m' where m: "m = Suc m'" by (cases m) auto
  show ?case
  proof (cases ws)
    case Nil
    have "parse_value m' (stringify v @ CHR '']'' # r) = Some (v, CHR '']'' # r)"
      using Cons.prems(2) [of v m'] Cons.prems(3) Nil m by simp
    then show ?thesis using Nil m by (simp add: parse_elements_last)
  next
    case (Cons w ws')
    let ?rest = "join '','' (map stringify ws)"
    have j: "join '','' (map stringify (v # ws)) = stringify v @ CHR '','' # ?rest"
      using Cons by simp
    have "parse_value m' (stringify v @ CHR '','' # ?rest @ CHR '']'' # r)
            = Some (v, CHR '','' # ?rest @ CHR '']'' # r)"
      using Cons.prems(2) [of v m'] Cons.prems(3) m j by simp
    moreover have "parse_elements m' (?rest @ CHR '']'' # r) = Some (ws, r)"
    proof (rule Cons.IH)
      show "ws \<noteq> []" using Cons by simp
      show "2 * length ?rest + 1 \<le> m'" using Cons.prems(3) m j by simp
      show "parse_value n (stringify u @ r') = Some (u, r')"
        if "u \<in> set ws" "2 * length (stringify u) \<le> n" for u n r'
        using that Cons.prems(2) by simp
    qed
    ultimately show ?thesis using m j by (simp add: parse_elements_more)
  qed
qed

lemma members_roundtrip:
  assumes "ms \<noteq> []"
    and "\<And>k v n r. (k, v) \<in> set ms \<Longrightarrow> 2 * length (stringify v) \<le> n \<Longrightarrow>
           parse_value n (stringify v @ r) = Some (v, r)"
    and "2 * length (join '','' (map (\<lambda>(k, v). quote k @ '':'' @ stringify v) ms)) + 1 \<le> m"
  shows "parse_members m
           (join '','' (map (\<lambda>(k, v). quote k @ '':'' @ stringify v) ms) @ CHR ''}'' # r)
         = Some (ms, r)"
  using assms
proof (induction ms arbitrary: m)
  case Nil
  then show ?case by simp
next
  case (Cons kv ws)
  obtain k v where kv: "kv = (k, v)" by (cases kv)
  from Cons.prems(3) obtain m' where m: "m = Suc m'" by (cases m) auto
  let ?f = "\<lambda>(k, v). quote k @ '':'' @ stringify v"
  have len: "length (stringify v) < length (?f kv)" by (simp add: kv)
  show ?case
  proof (cases ws)
    case Nil
    have "2 * length (stringify v) \<le> m'" using Cons.prems(3) Nil m len by simp
    then have "parse_value m' (stringify v @ CHR ''}'' # r) = Some (v, CHR ''}'' # r)"
      using Cons.prems(2) [of k v m'] kv by simp
    moreover have "parse_string (concat (map escape_char k) @ DQ # CHR '':'' # stringify v @ CHR ''}'' # r)
                     = Some (k, CHR '':'' # stringify v @ CHR ''}'' # r)"
      by (rule parse_string_escaped)
    ultimately have "parse_members (Suc m') (DQ # concat (map escape_char k) @ DQ # CHR '':'' # stringify v @ CHR ''}'' # r)
                       = Some ([(k, v)], r)"
      by (rule parse_members_last [rotated])
    moreover have "?f kv @ CHR ''}'' # r = DQ # concat (map escape_char k) @ DQ # CHR '':'' # stringify v @ CHR ''}'' # r"
      by (simp add: kv quote_def)
    ultimately show ?thesis using Nil m kv by simp
  next
    case (Cons w ws')
    let ?rest = "join '','' (map ?f ws)"
    have j: "join '','' (map ?f (kv # ws)) = ?f kv @ CHR '','' # ?rest"
      using Cons by simp
    have "2 * length (stringify v) \<le> m'" using Cons.prems(3) m len j by simp
    then have "parse_value m' (stringify v @ CHR '','' # ?rest @ CHR ''}'' # r)
                 = Some (v, CHR '','' # ?rest @ CHR ''}'' # r)"
      using Cons.prems(2) [of k v m'] kv by simp
    moreover have "parse_string (concat (map escape_char k) @ DQ # CHR '':'' # stringify v @ CHR '','' # ?rest @ CHR ''}'' # r)
                     = Some (k, CHR '':'' # stringify v @ CHR '','' # ?rest @ CHR ''}'' # r)"
      by (rule parse_string_escaped)
    ultimately have "parse_members (Suc m')
                       (DQ # concat (map escape_char k) @ DQ # CHR '':'' # stringify v @ CHR '','' # ?rest @ CHR ''}'' # r)
                     = map_option (apfst ((#) (k, v))) (parse_members m' (?rest @ CHR ''}'' # r))"
      by (rule parse_members_more [rotated])
    moreover have "parse_members m' (?rest @ CHR ''}'' # r) = Some (ws, r)"
    proof (rule Cons.IH)
      show "ws \<noteq> []" using Cons by simp
      show "2 * length ?rest + 1 \<le> m'" using Cons.prems(3) m j by simp
      show "parse_value n (stringify u @ r') = Some (u, r')"
        if "(k', u) \<in> set ws" "2 * length (stringify u) \<le> n" for k' u n r'
        using that Cons.prems(2) [of k' u n r'] by simp
    qed
    moreover have "join '','' (map ?f (kv # ws)) @ CHR ''}'' # r
                     = DQ # concat (map escape_char k) @ DQ # CHR '':'' # stringify v @ CHR '','' # ?rest @ CHR ''}'' # r"
      unfolding j by (simp add: kv quote_def)
    ultimately show ?thesis using m kv by simp
  qed
qed

lemma stringify_length: "number_free v \<Longrightarrow> 2 \<le> length (stringify v)"
  by (cases v) (auto simp: quote_def)

lemma value_roundtrip:
  "number_free v \<Longrightarrow> 2 * length (stringify v) \<le> n \<Longrightarrow>
   parse_value n (stringify v @ r) = Some (v, r)"
proof (induction v arbitrary: n r)
  case JNull
  then obtain n' where "n = Suc n'" by (cases n) auto
  then show ?case using parse_value_literals(1) by simp
next
  case (JBool b)
  then obtain n' where "n = Suc n'" by (cases n) (auto split: if_splits)
  then show ?case using parse_value_literals(2,3) by simp
next
  case (JNumber x)
  then show ?case by simp
next
  case (JString s)
  then obtain n' where n: "n = Suc n'" by (cases n) (auto simp: quote_def)
  have "stringify (JString s) @ r = DQ # concat (map escape_char s) @ DQ # r"
    by (simp add: quote_def)
  then show ?case using n by (simp add: parse_value_string parse_string_escaped)
next
  case (JArray vs)
  from JArray.prems(2) obtain n' where n: "n = Suc n'" by (cases n) auto
  show ?case
  proof (cases "vs = []")
    case True
    then show ?thesis using n parse_value_empty(1) [of n' r] by simp
  next
    case False
    let ?body = "join '','' (map stringify vs)"
    have nf: "\<And>v. v \<in> set vs \<Longrightarrow> number_free v"
      using JArray.prems(1) by (simp add: list_all_iff)
    have "number_free (hd vs)" using False nf by simp
    then obtain d t where d: "?body = d # t" "opener d"
      using join_Cons_opener [OF False, of stringify] stringify_opener by blast
    have "parse_elements n' (?body @ CHR '']'' # r) = Some (vs, r)"
    proof (rule elements_roundtrip [OF False])
      show "2 * length ?body + 1 \<le> n'" using JArray.prems(2) n by simp
      show "parse_value m (stringify u @ r') = Some (u, r')"
        if "u \<in> set vs" "2 * length (stringify u) \<le> m" for u m r'
        using that JArray.IH nf by simp
    qed
    moreover have "stringify (JArray vs) @ r = CHR ''['' # d # t @ CHR '']'' # r"
      using d by simp
    moreover have "parse_value (Suc n') (CHR ''['' # d # t @ CHR '']'' # r)
                     = map_option (apfst JArray) (parse_elements n' (d # t @ CHR '']'' # r))"
      using d(2) by (rule parse_value_array)
    ultimately show ?thesis using n d by simp
  qed
next
  case (JObject ms)
  from JObject.prems(2) obtain n' where n: "n = Suc n'" by (cases n) auto
  let ?f = "\<lambda>(k, v). quote k @ '':'' @ stringify v"
  show ?case
  proof (cases "ms = []")
    case True
    then show ?thesis using n parse_value_empty(2) [of n' r] by simp
  next
    case False
    let ?body = "join '','' (map ?f ms)"
    have nf: "\<And>k v. (k, v) \<in> set ms \<Longrightarrow> number_free v"
      using JObject.prems(1) by (auto simp: list_all_iff)
    obtain t where d: "?body = DQ # t"
    proof (cases ms)
      case Nil
      with False show ?thesis by simp
    next
      case (Cons kv ws)
      then show ?thesis using that by (cases ws; cases kv) (simp_all add: quote_def)
    qed
    have "parse_members n' (?body @ CHR ''}'' # r) = Some (ms, r)"
    proof (rule members_roundtrip [OF False])
      show "2 * length ?body + 1 \<le> n'" using JObject.prems(2) n by simp
      show "parse_value m (stringify u @ r') = Some (u, r')"
        if "(k, u) \<in> set ms" "2 * length (stringify u) \<le> m" for k u m r'
        using that JObject.IH [of "(k, u)" u m r'] nf by simp
    qed
    moreover have "stringify (JObject ms) @ r = CHR ''{'' # DQ # t @ CHR ''}'' # r"
      using d by simp
    ultimately show ?thesis using n d by (simp add: parse_value_object)
  qed
qed

lemma JSON_roundtrip: "number_free v \<Longrightarrow> JSON_parse (JSON_stringify v) = Inr v"
  using value_roundtrip [of v "2 * length (stringify v) + 1" "[]"]
  by (simp add: JSON_parse_def JSON_stringify_def skip_ws_def)

section \<open>JSON: the bound of the value parser is never reached\<close>

lemma length_skip_ws: "length (skip_ws s) \<le> length s"
  by (simp add: skip_ws_def length_dropWhile_le)

lemma skip_ws_Cons_length: "skip_ws s = c # r \<Longrightarrow> length r < length s"
  using length_skip_ws [of s] by simp

lemma parse_string_length: "parse_string s = Some (k, r) \<Longrightarrow> length r < length s"
proof (induction s arbitrary: k r rule: parse_string.induct)
  case 1
  then show ?case by simp
next
  case (2 c s)
  show ?case
  proof (cases "c = DQ")
    case True
    with "2.prems" show ?thesis by simp
  next
    case notq: False
    show ?thesis
    proof (cases "c = BSL")
      case False
      with notq "2.prems" obtain k' where "parse_string s = Some (k', r)"
        by (auto split: if_splits)
      then have "length r < length s" using "2.IH"(3) notq False "2.prems"
        by (auto split: if_splits)
      then show ?thesis by simp
    next
      case True
      show ?thesis
      proof (cases s)
        case Nil
        with True notq "2.prems" show ?thesis by simp
      next
        case (Cons e s')
        show ?thesis
        proof (cases "e = CHR ''u''")
          case False
          with True notq Cons "2.prems" obtain x k' where
            "unescape e = Some x" "parse_string s' = Some (k', r)"
            by (auto split: option.splits)
          then have "length r < length s'"
            using "2.IH"(2) [OF notq True Cons False] by simp
          then show ?thesis using Cons by simp
        next
          case u: True
          with True notq Cons "2.prems" obtain h1 h2 h3 h4 s'' n k' where
            s': "s' = h1 # h2 # h3 # h4 # s''" and h: "hex4 h1 h2 h3 h4 = Some n" "n < 256"
            and p: "parse_string s'' = Some (k', r)"
            by (auto split: list.splits option.splits if_splits)
          have "length r < length s''"
            using "2.IH"(1) [OF notq True Cons u s' refl refl refl h] p by simp
          then show ?thesis using Cons s' by simp
        qed
      qed
    qed
  qed
qed

lemma digits1_length: "digits1 s = Some (d, r) \<Longrightarrow> length r < length s"
proof -
  assume a: "digits1 s = Some (d, r)"
  then have "takeWhile is_digit s \<noteq> []" "r = dropWhile is_digit s"
    by (auto simp: digits1_def split: if_splits)
  moreover have "length (takeWhile is_digit s) + length (dropWhile is_digit s) = length s"
    by (metis length_append takeWhile_dropWhile_id)
  ultimately show ?thesis by (cases "takeWhile is_digit s") auto
qed

lemma parse_int_part_length: "parse_int_part s = Some (d, r) \<Longrightarrow> length r < length s"
  by (auto simp: parse_int_part_def split: list.splits if_splits dest: digits1_length)

lemma parse_frac_length: "parse_frac s = Some (d, r) \<Longrightarrow> length r \<le> length s"
  by (auto simp: parse_frac_def split: list.splits if_splits dest: digits1_length)

lemma parse_exp_length: "parse_exp s = Some (d, r) \<Longrightarrow> length r \<le> length s"
  by (auto simp: parse_exp_def split: list.splits if_splits dest: digits1_length)

lemma parse_number_length:
  assumes "parse_number s = Some (x, r)"
  shows "length r < length s"
proof -
  obtain sign s1 where s1: "(case s of [] \<Rightarrow> ([], s)
        | c # r \<Rightarrow> if c = CHR ''-'' then ([c], r) else ([], s)) = (sign, s1)"
    by (cases "case s of [] \<Rightarrow> ([], s) | c # r \<Rightarrow> if c = CHR ''-'' then ([c], r) else ([], s)") auto
  then have l1: "length s1 \<le> length s" by (auto split: list.splits if_splits)
  from assms s1 obtain i s2 f s3 e where
    "parse_int_part s1 = Some (i, s2)" "parse_frac s2 = Some (f, s3)" "parse_exp s3 = Some (e, r)"
    by (auto simp: parse_number_def split: option.splits)
  then have "length s2 < length s1" "length s3 \<le> length s2" "length r \<le> length s3"
    using parse_int_part_length parse_frac_length parse_exp_length by blast+
  then show ?thesis using l1 by simp
qed

lemma drop_length_less: "0 < k \<Longrightarrow> s \<noteq> [] \<Longrightarrow> length (drop k s) < length s"
  by simp

lemma parse_lengths:
  "(\<forall>s v r. parse_value n s = Some (v, r) \<longrightarrow> length r < length s)
   \<and> (\<forall>s vs r. parse_elements n s = Some (vs, r) \<longrightarrow> length r < length s)
   \<and> (\<forall>s ms r. parse_members n s = Some (ms, r) \<longrightarrow> length r < length s)"
proof (induction n)
  case 0
  show ?case by (simp add: parse_value.simps parse_elements.simps parse_members.simps)
next
  case (Suc n)
  then have IHv: "\<And>s v r. parse_value n s = Some (v, r) \<Longrightarrow> length r < length s"
    and IHe: "\<And>s vs r. parse_elements n s = Some (vs, r) \<Longrightarrow> length r < length s"
    and IHm: "\<And>s ms r. parse_members n s = Some (ms, r) \<Longrightarrow> length r < length s"
    by blast+
  have v: "length r < length s" if p: "parse_value (Suc n) s = Some (v, r)" for s v r
  proof -
    from p obtain c t where ct: "skip_ws s = c # t"
      by (auto simp: parse_value.simps split: list.splits)
    have lt: "length t < length s" using ct by (rule skip_ws_Cons_length)
    have le: "length (c # t) \<le> length s" using length_skip_ws [of s] ct by simp
    consider (arr) "c = CHR ''[''" | (obj) "c \<noteq> CHR ''[''" "c = CHR ''{''"
      | (str) "c \<noteq> CHR ''[''" "c \<noteq> CHR ''{''" "c = DQ"
      | (other) "c \<noteq> CHR ''[''" "c \<noteq> CHR ''{''" "c \<noteq> DQ"
      by blast
    then show ?thesis
    proof cases
      case arr
      with p ct obtain d t' where dt: "skip_ws t = d # t'"
        by (auto simp: parse_value.simps split: list.splits)
      have lt': "length t' < length t" using dt by (rule skip_ws_Cons_length)
      have le': "length (d # t') \<le> length t" using length_skip_ws [of t] dt by simp
      show ?thesis
      proof (cases "d = CHR '']''")
        case True
        with p ct arr dt have "r = t'" by (simp add: parse_value.simps)
        then show ?thesis using lt lt' by simp
      next
        case False
        with p ct arr dt obtain vs where "parse_elements n (d # t') = Some (vs, r)"
          by (auto simp: parse_value.simps)
        then have "length r < length (d # t')" by (rule IHe)
        then show ?thesis using le' lt by simp
      qed
    next
      case obj
      with p ct obtain d t' where dt: "skip_ws t = d # t'"
        by (auto simp: parse_value.simps split: list.splits)
      have lt': "length t' < length t" using dt by (rule skip_ws_Cons_length)
      have le': "length (d # t') \<le> length t" using length_skip_ws [of t] dt by simp
      show ?thesis
      proof (cases "d = CHR ''}''")
        case True
        with p ct obj dt have "r = t'" by (simp add: parse_value.simps)
        then show ?thesis using lt lt' by simp
      next
        case False
        with p ct obj dt obtain ms where "parse_members n (d # t') = Some (ms, r)"
          by (auto simp: parse_value.simps)
        then have "length r < length (d # t')" by (rule IHm)
        then show ?thesis using le' lt by simp
      qed
    next
      case str
      with p ct obtain k where "parse_string t = Some (k, r)"
        by (auto simp: parse_value.simps)
      then have "length r < length t" by (rule parse_string_length)
      then show ?thesis using lt by simp
    next
      case other
      with p ct have "r = drop 4 (c # t) \<or> r = drop 5 (c # t)
          \<or> (\<exists>x. parse_number (c # t) = Some (x, r))"
        by (auto simp: parse_value.simps split: if_splits)
      then have "length r < length (c # t)"
        using parse_number_length [of "c # t"] by auto
      then show ?thesis using le by simp
    qed
  qed
  have e: "length r < length s" if p: "parse_elements (Suc n) s = Some (vs, r)" for s vs r
  proof -
    from p obtain v rest where pv: "parse_value n s = Some (v, rest)"
      by (auto simp: parse_elements.simps split: option.splits)
    then have l1: "length rest < length s" by (rule IHv)
    from p pv obtain c t where ct: "skip_ws rest = c # t"
      by (auto simp: parse_elements.simps split: list.splits)
    have l2: "length t < length rest" using ct by (rule skip_ws_Cons_length)
    from p pv ct have "r = t \<or> (\<exists>ws. parse_elements n t = Some (ws, r))"
      by (auto simp: parse_elements.simps split: if_splits)
    then have "length r \<le> length t" using IHe [of t] by (auto simp: less_imp_le)
    then show ?thesis using l1 l2 by simp
  qed
  have m: "length r < length s" if p: "parse_members (Suc n) s = Some (ms, r)" for s ms r
  proof -
    from p obtain c t where ct: "skip_ws s = c # t" "c = DQ"
      by (auto simp: parse_members.simps split: list.splits if_splits)
    have l0: "length t < length s" using ct(1) by (rule skip_ws_Cons_length)
    from p ct obtain k rest where ps: "parse_string t = Some (k, rest)"
      by (auto simp: parse_members.simps split: option.splits)
    then have l1: "length rest < length t" by (rule parse_string_length)
    from p ct ps obtain c2 t2 where c2: "skip_ws rest = c2 # t2" "c2 = CHR '':''"
      by (auto simp: parse_members.simps split: list.splits if_splits)
    have l2: "length t2 < length rest" using c2(1) by (rule skip_ws_Cons_length)
    from p ct ps c2 obtain v rest2 where pv: "parse_value n t2 = Some (v, rest2)"
      by (auto simp: parse_members.simps split: option.splits)
    then have l3: "length rest2 < length t2" by (rule IHv)
    from p ct ps c2 pv obtain c3 t3 where c3: "skip_ws rest2 = c3 # t3"
      by (auto simp: parse_members.simps split: list.splits)
    have l4: "length t3 < length rest2" using c3 by (rule skip_ws_Cons_length)
    from p ct ps c2 pv c3 have "r = t3 \<or> (\<exists>ws. parse_members n t3 = Some (ws, r))"
      by (auto simp: parse_members.simps split: if_splits)
    then have "length r \<le> length t3" using IHm [of t3] by (auto simp: less_imp_le)
    then show ?thesis using l0 l1 l2 l3 l4 by simp
  qed
  show ?case using v e m by blast
qed

lemma parse_value_length: "parse_value n s = Some (v, r) \<Longrightarrow> length r < length s"
  using parse_lengths by blast

lemma parse_fuel:
  "(\<forall>s m. 2 * length s + 1 \<le> n \<longrightarrow> 2 * length s + 1 \<le> m \<longrightarrow>
       parse_value m s = parse_value n s)
   \<and> (\<forall>s m. 2 * length s + 2 \<le> n \<longrightarrow> 2 * length s + 2 \<le> m \<longrightarrow>
       parse_elements m s = parse_elements n s)
   \<and> (\<forall>s m. 2 * length s + 2 \<le> n \<longrightarrow> 2 * length s + 2 \<le> m \<longrightarrow>
       parse_members m s = parse_members n s)"
proof (induction n)
  case 0
  show ?case by simp
next
  case (Suc n)
  then have IHv: "\<And>s m. 2 * length s + 1 \<le> n \<Longrightarrow> 2 * length s + 1 \<le> m \<Longrightarrow>
        parse_value m s = parse_value n s"
    and IHe: "\<And>s m. 2 * length s + 2 \<le> n \<Longrightarrow> 2 * length s + 2 \<le> m \<Longrightarrow>
        parse_elements m s = parse_elements n s"
    and IHm: "\<And>s m. 2 * length s + 2 \<le> n \<Longrightarrow> 2 * length s + 2 \<le> m \<Longrightarrow>
        parse_members m s = parse_members n s"
    by blast+
  have v: "parse_value m s = parse_value (Suc n) s"
    if b: "2 * length s + 1 \<le> Suc n" "2 * length s + 1 \<le> m" for s m
  proof -
    from b(2) obtain m' where m: "m = Suc m'" by (cases m) auto
    have inner: "2 * length (d # t') + 2 \<le> n \<and> 2 * length (d # t') + 2 \<le> m'"
      if "skip_ws s = c # t" "skip_ws t = d # t'" for c t d t'
    proof -
      have "length t < length s" using that(1) by (rule skip_ws_Cons_length)
      moreover have "length (d # t') \<le> length t" using length_skip_ws [of t] that(2) by simp
      ultimately show ?thesis using b m by simp
    qed
    have E: "parse_elements m' (d # t') = parse_elements n (d # t')"
      if "skip_ws s = c # t" "skip_ws t = d # t'" for c t d t'
      using inner [OF that] IHe by blast
    have M: "parse_members m' (d # t') = parse_members n (d # t')"
      if "skip_ws s = c # t" "skip_ws t = d # t'" for c t d t'
      using inner [OF that] IHm by blast
    show ?thesis
    proof (cases "skip_ws s")
      case Nil
      show ?thesis by (simp only: m parse_value.simps Nil list.case)
    next
      case c: (Cons c t)
      show ?thesis
      proof (cases "skip_ws t")
        case Nil
        show ?thesis by (simp only: m parse_value.simps c Nil list.case)
      next
        case (Cons d t')
        show ?thesis
          by (simp only: m parse_value.simps c Cons list.case E [OF c Cons] M [OF c Cons])
      qed
    qed
  qed
  have e: "parse_elements m s = parse_elements (Suc n) s"
    if b: "2 * length s + 2 \<le> Suc n" "2 * length s + 2 \<le> m" for s m
  proof -
    from b(2) obtain m' where m: "m = Suc m'" by (cases m) auto
    have V: "parse_value m' s = parse_value n s"
      using b m by (intro IHv) simp_all
    have E: "parse_elements m' t = parse_elements n t"
      if "parse_value n s = Some (v, rest)" "skip_ws rest = c # t" for v rest c t
    proof -
      have "length rest < length s" using that(1) by (rule parse_value_length)
      moreover have "length t < length rest" using that(2) by (rule skip_ws_Cons_length)
      ultimately show ?thesis using b m by (intro IHe) simp_all
    qed
    show ?thesis
    proof (cases "parse_value n s")
      case None
      show ?thesis by (simp only: m parse_elements.simps V None option.case)
    next
      case (Some a)
      obtain v rest where a: "a = (v, rest)" by (cases a)
      note pv = Some [unfolded a]
      show ?thesis
      proof (cases "skip_ws rest")
        case Nil
        show ?thesis
          by (simp only: m parse_elements.simps V pv option.case prod.case Nil list.case)
      next
        case (Cons c t)
        show ?thesis
          by (simp only: m parse_elements.simps V pv option.case prod.case Cons list.case
              E [OF pv Cons])
      qed
    qed
  qed
  have mm: "parse_members m s = parse_members (Suc n) s"
    if b: "2 * length s + 2 \<le> Suc n" "2 * length s + 2 \<le> m" for s m
  proof -
    from b(2) obtain m' where m: "m = Suc m'" by (cases m) auto
    have V: "parse_value m' t2 = parse_value n t2"
      if "skip_ws s = c # t" "parse_string t = Some (k, rest)" "skip_ws rest = c2 # t2"
      for c t k rest c2 t2
    proof -
      have "length t < length s" using that(1) by (rule skip_ws_Cons_length)
      moreover have "length rest < length t" using that(2) by (rule parse_string_length)
      moreover have "length t2 < length rest" using that(3) by (rule skip_ws_Cons_length)
      ultimately show ?thesis using b m by (intro IHv) simp_all
    qed
    have M: "parse_members m' t3 = parse_members n t3"
      if "skip_ws s = c # t" "parse_string t = Some (k, rest)" "skip_ws rest = c2 # t2"
        "parse_value n t2 = Some (v, rest2)" "skip_ws rest2 = c3 # t3"
      for c t k rest c2 t2 v rest2 c3 t3
    proof -
      have "length t < length s" using that(1) by (rule skip_ws_Cons_length)
      moreover have "length rest < length t" using that(2) by (rule parse_string_length)
      moreover have "length t2 < length rest" using that(3) by (rule skip_ws_Cons_length)
      moreover have "length rest2 < length t2" using that(4) by (rule parse_value_length)
      moreover have "length t3 < length rest2" using that(5) by (rule skip_ws_Cons_length)
      ultimately show ?thesis using b m by (intro IHm) simp_all
    qed
    show ?thesis
    proof (cases "skip_ws s")
      case Nil
      show ?thesis by (simp only: m parse_members.simps Nil list.case)
    next
      case c: (Cons c t)
      show ?thesis
      proof (cases "parse_string t")
        case None
        show ?thesis by (simp only: m parse_members.simps c None list.case option.case)
      next
        case (Some a)
        obtain k rest where a: "a = (k, rest)" by (cases a)
        note ps = Some [unfolded a]
        show ?thesis
        proof (cases "skip_ws rest")
          case Nil
          show ?thesis
            by (simp only: m parse_members.simps c ps Nil list.case option.case prod.case)
        next
          case c2: (Cons c2 t2)
          note V' = V [OF c ps c2]
          show ?thesis
          proof (cases "parse_value n t2")
            case None
            show ?thesis
              by (simp only: m parse_members.simps c ps c2 V' None list.case option.case prod.case)
          next
            case (Some a2)
            obtain v rest2 where a2: "a2 = (v, rest2)" by (cases a2)
            note pv = Some [unfolded a2]
            show ?thesis
            proof (cases "skip_ws rest2")
              case Nil
              show ?thesis
                by (simp only: m parse_members.simps c ps c2 V' pv Nil
                    list.case option.case prod.case)
            next
              case (Cons c3 t3)
              show ?thesis
                by (simp only: m parse_members.simps c ps c2 V' pv Cons
                    list.case option.case prod.case M [OF c ps c2 pv Cons])
            qed
          qed
        qed
      qed
    qed
  qed
  show ?case using v e mm by blast
qed

text \<open>
  More than twice the length of the text and one is never needed: with any larger bound
  \<open>parse_value\<close> gives what it gives with that one. So \<open>JSON_parse\<close> reports a
  syntax error only for a text that is not JSON, never for want of steps.
\<close>

lemma parse_value_fuel:
  "2 * length s + 1 \<le> m \<Longrightarrow> parse_value m s = parse_value (2 * length s + 1) s"
  using parse_fuel [of "2 * length s + 1"] by blast

section \<open>Submitting a draft\<close>

lemma handleSubmit_invalid:
  "\<not> snd (validateForm (formData app)) \<Longrightarrow>
   handleSubmit env app = app\<lparr>errors := fst (validateForm (formData app))\<rparr>"
  by (simp add: handleSubmit_def case_prod_beta)

lemma saveEffect_students: "students (saveEffect app) = students app"
  by (simp add: saveEffect_def case_prod_beta)

lemma saveEffect_fields:
  "errors (saveEffect app) = errors app"
  "showForm (saveEffect app) = showForm app"
  "editingStudent (saveEffect app) = editingStudent app"
  by (simp_all add: saveEffect_def case_prod_beta)

lemma handleSubmit_valid_students:
  "snd (validateForm (formData app)) \<Longrightarrow>
   students (handleSubmit env app) =
     (if editingStudent app \<noteq> None
      then updateStudent (studentData env (editingStudent app) (formData app)) (students app)
      else addStudent (studentData env (editingStudent app) (formData app)) (students app))"
  by (simp add: handleSubmit_def handleFormSubmit_def saveEffect_students Let_def
      case_prod_beta)

lemma handleSubmit_valid:
  "snd (validateForm (formData app)) \<Longrightarrow>
   handleSubmit env app =
     saveEffect
       (app\<lparr>errors := fst (validateForm (formData app)),
            students :=
              (if editingStudent app \<noteq> None
               then updateStudent (studentData env (editingStudent app) (formData app)) (students app)
               else addStudent (studentData env (editingStudent app) (formData app)) (students app)),
            showForm := False,
            editingStudent := None,
            isSubmitting := False\<rparr>)"
  by (simp add: handleSubmit_def handleFormSubmit_def Let_def case_prod_beta)

lemma saveEffect_console:
  "console (saveEffect app) =
     (if isLoading app then console app
      else snd (saveStudents (students app) (localStorage app) (console app)))"
  by (simp add: saveEffect_def case_prod_beta)

lemma saveEffect_localStorage:
  "localStorage (saveEffect app) =
     (if isLoading app then localStorage app
      else fst (saveStudents (students app) (localStorage app) (console app)))"
  by (simp add: saveEffect_def case_prod_beta)

lemma usage_single: "usage [(k, v)] = length k + length v"
  by (simp add: usage_def)

lemma getItem_update: "getItem (st\<lparr>items := AList.update k v (items st)\<rparr>) k = Some v"
  by (simp add: getItem_def AList.update_conv')

lemma saveStudents_stored:
  "usage (AList.update STORAGE_KEY (JSON_stringify (json_of_students ss)) (items st)) \<le> quota st \<Longrightarrow>
   saveStudents ss st c =
     (st\<lparr>items := AList.update STORAGE_KEY (JSON_stringify (json_of_students ss)) (items st)\<rparr>, c)"
  by (simp add: saveStudents_def setItem_def)

lemma saveStudents_failed:
  "quota st < usage (AList.update STORAGE_KEY (JSON_stringify (json_of_students ss)) (items st)) \<Longrightarrow>
   saveStudents ss st c =
     (st, c @ [(''Error saving students to storage:'', QuotaExceededError)])"
  by (simp add: saveStudents_def setItem_def)

lemma updateStudent_absent:
  "\<forall>s \<in> set prev. Student.id' s \<noteq> Student.id' u \<Longrightarrow> updateStudent u prev = prev"
  unfolding updateStudent_def by (induction prev) simp_all

lemma updateStudent_nth:
  "i < length prev \<Longrightarrow>
   updateStudent u prev ! i = (if Student.id' (prev ! i) = Student.id' u then u else prev ! i)"
  by (simp add: updateStudent_def)

text \<open>
  C9. For every draft that fails validation, the submit stores the error set, which is
  not empty, and changes nothing else: the collection in memory and the storage are as
  before.
\<close>

theorem add_invalid_no_mutation:
  assumes "\<not> snd (validateForm (formData app))"
  shows "errors (handleSubmit env app) = fst (validateForm (formData app))
    \<and> dom (errors (handleSubmit env app)) \<noteq> {}
    \<and> students (handleSubmit env app) = students app
    \<and> localStorage (handleSubmit env app) = localStorage app
    \<and> handleSubmit env app = app\<lparr>errors := fst (validateForm (formData app))\<rparr>"
  using assms handleSubmit_invalid [OF assms, of env] by (simp add: validateForm_snd)

lemma goodForm_valid: "validateForm goodForm = (Map.empty, True)"
proof -
  have "trim '' Bob '' = ''Bob''" "trim ''Bob@Mail.com'' = ''Bob@Mail.com''"
    by (simp_all add: trim_def isWhiteSpace_def)
  moreover have "validateEmail ''Bob@Mail.com''"
    by (simp add: validateEmail_def test_def emailRegex_def Plus_def isWhiteSpace_def)
  ultimately show ?thesis
    by (simp add: validateForm_def goodForm_def Let_def)
qed

lemma hydrated_fields:
  "students (hydrated ss st) = ss"
  "isLoading (hydrated ss st) = False"
  "showForm (hydrated ss st) = False"
  "editingStudent (hydrated ss st) = None"
  "console (hydrated ss st) = snd (saveStudents ss st [])"
  "localStorage (hydrated ss st) = fst (saveStudents ss st [])"
  by (simp_all add: hydrated_def saveEffect_def case_prod_beta)

lemma lostEditApp_fields:
  "students lostEditApp = [ann\<lparr>Student.id' := []\<rparr>]"
  "isLoading lostEditApp = False"
  "editingStudent lostEditApp = Some (ann\<lparr>Student.id' := []\<rparr>)"
  "showForm lostEditApp = True"
  "formData lostEditApp = \<lparr>FormData.name = ''Anna'', email = ''ann@x.org'',
      enrolledCourse = ''CSS Mastery'', profileImage = ''p.png''\<rparr>"
  "console lostEditApp = snd (saveStudents [ann\<lparr>Student.id' := []\<rparr>]
      \<lparr>items = [], quota = 5000\<rparr> [])"
  "localStorage lostEditApp = fst (saveStudents [ann\<lparr>Student.id' := []\<rparr>]
      \<lparr>items = [], quota = 5000\<rparr> [])"
  by (simp_all add: lostEditApp_def handleInputChange_def handleEditStudent_def formEffect_def
      hydrated_fields) (simp_all add: ann_def)

lemma lostEditApp_reachable: "reachable lostEditApp"
proof -
  let ?r = "ann\<lparr>Student.id' := []\<rparr>"
  let ?a0 = "hydrated [?r] \<lparr>items = [], quota = 5000\<rparr>"
  have "reachable ?a0" by (rule reachable.start)
  moreover have "?r \<in> set (students ?a0)" by (simp add: hydrated_fields)
  ultimately have r1: "reachable (handleEditStudent ?r ?a0)" by (rule reachable.edit)
  have "showForm (handleEditStudent ?r ?a0)"
    by (simp add: handleEditStudent_def formEffect_def)
  with r1 show ?thesis unfolding lostEditApp_def by (rule reachable.typing) simp
qed

lemma undatedApp_fields:
  "students undatedApp = [ann\<lparr>Student.dateEnrolled := []\<rparr>]"
  "editingStudent undatedApp = Some (ann\<lparr>Student.dateEnrolled := []\<rparr>)"
  "showForm undatedApp = True"
  "formData undatedApp = \<lparr>FormData.name = ''Ann'', email = ''ann@x.org'',
      enrolledCourse = ''CSS Mastery'', profileImage = ''p.png''\<rparr>"
  by (simp_all add: undatedApp_def handleEditStudent_def formEffect_def hydrated_fields)
    (simp_all add: ann_def)

lemma undatedApp_reachable: "reachable undatedApp"
proof -
  let ?r = "ann\<lparr>Student.dateEnrolled := []\<rparr>"
  let ?a0 = "hydrated [?r] \<lparr>items = [], quota = 5000\<rparr>"
  have "reachable ?a0" by (rule reachable.start)
  moreover have "?r \<in> set (students ?a0)" by (simp add: hydrated_fields)
  ultimately show ?thesis unfolding undatedApp_def by (rule reachable.edit)
qed

lemma ann_form_valid:
  "validateForm \<lparr>FormData.name = n, email = ''ann@x.org'',
      enrolledCourse = ''CSS Mastery'', profileImage = ''p.png''\<rparr> = (Map.empty, True)"
  if "n = ''Ann'' \<or> n = ''Anna''"
proof -
  have "trim ''Ann'' = ''Ann''" "trim ''Anna'' = ''Anna''" "trim ''ann@x.org'' = ''ann@x.org''"
    by (simp_all add: trim_def isWhiteSpace_def)
  moreover have "validateEmail ''ann@x.org''"
    by (simp add: validateEmail_def test_def emailRegex_def Plus_def isWhiteSpace_def)
  ultimately show ?thesis
    using that by (auto simp: validateForm_def Let_def)
qed

theorem add_invalid_no_mutation_witness:
  "\<not> snd (validateForm (formData (sampleApp\<lparr>formData := goodForm\<lparr>FormData.name := ''  ''\<rparr>\<rparr>)))
   \<and> errors (handleSubmit sampleEnv (sampleApp\<lparr>formData := goodForm\<lparr>FormData.name := ''  ''\<rparr>\<rparr>)) Name
       = Some ''Name is required''
   \<and> students (handleSubmit sampleEnv (sampleApp\<lparr>formData := goodForm\<lparr>FormData.name := ''  ''\<rparr>\<rparr>)) = [ann]
   \<and> localStorage (handleSubmit sampleEnv (sampleApp\<lparr>formData := goodForm\<lparr>FormData.name := ''  ''\<rparr>\<rparr>))
       = \<lparr>items = [], quota = 5000\<rparr>"
proof -
  have t: "trim ''  '' = []" by (simp add: trim_def isWhiteSpace_def)
  have bad: "\<not> snd (validateForm (formData (sampleApp\<lparr>formData := goodForm\<lparr>FormData.name := ''  ''\<rparr>\<rparr>)))"
    unfolding validateForm_snd field_dom_empty by (simp add: validateForm_Name t sampleApp_def)
  have "fst (validateForm (goodForm\<lparr>FormData.name := ''  ''\<rparr>)) Name = Some ''Name is required''"
    by (simp add: validateForm_Name t)
  then show ?thesis
    using bad add_invalid_no_mutation [OF bad, of sampleEnv]
    by (simp add: sampleApp_def)
qed

text \<open>
  C1, as the specification has it: an update whose id matches no record fails with a
  ``not found'' error. It does not. In \<open>lostEditApp\<close> the record being edited has an
  empty id, so that the draft gets a fresh one, which no record has. The submit ends as a
  successful one does: no error is set, nothing is logged, the form is closed; and the
  collection is as before. Likewise the updater alone, for an id that no record has.
\<close>

theorem update_absent_id_counterexample:
  "reachable lostEditApp
   \<and> Student.id' (studentData sampleEnv (editingStudent lostEditApp) (formData lostEditApp))
       = ''m1abc9''
   \<and> students lostEditApp = [ann\<lparr>Student.id' := []\<rparr>]
   \<and> students (handleSubmit sampleEnv lostEditApp) = [ann\<lparr>Student.id' := []\<rparr>]
   \<and> errors (handleSubmit sampleEnv lostEditApp) = Map.empty
   \<and> console (handleSubmit sampleEnv lostEditApp) = []
   \<and> showForm (handleSubmit sampleEnv lostEditApp) = False
   \<and> updateStudent (ann\<lparr>Student.id' := ''zzz''\<rparr>) [ann] = [ann]"
proof -
  let ?r = "ann\<lparr>Student.id' := []\<rparr>"
  have v: "validateForm (formData lostEditApp) = (Map.empty, True)"
    unfolding lostEditApp_fields by (rule ann_form_valid) simp
  then have v': "snd (validateForm (formData lostEditApp))" by simp
  have i: "Student.id' (studentData sampleEnv (Some ?r) (formData lostEditApp)) = ''m1abc9''"
    by (simp add: studentData_def or_else_def sampleEnv_def)
  have u: "updateStudent (studentData sampleEnv (Some ?r) (formData lostEditApp)) [?r] = [?r]"
    by (simp add: updateStudent_def i)
  have u': "updateStudent (ann\<lparr>Student.id' := ''zzz''\<rparr>) [ann] = [ann]"
    by (simp add: updateStudent_def ann_def)
  have hs: "handleSubmit sampleEnv lostEditApp =
      saveEffect (lostEditApp\<lparr>errors := Map.empty, students := [?r], showForm := False,
        editingStudent := None, isSubmitting := False\<rparr>)"
    unfolding handleSubmit_valid [OF v']
    by (simp add: v u lostEditApp_fields(1,3))
  have "length (JSON_stringify (json_of_students [?r])) = 140"
    by code_simp
  then have "usage (AList.update STORAGE_KEY (JSON_stringify (json_of_students [?r]))
                  (items \<lparr>items = [], quota = 5000\<rparr>))
               \<le> quota \<lparr>items = [], quota = 5000\<rparr>"
    "usage (AList.update STORAGE_KEY (JSON_stringify (json_of_students [?r]))
                  (items \<lparr>items = [(STORAGE_KEY, JSON_stringify (json_of_students [?r]))],
                     quota = 5000\<rparr>))
               \<le> quota \<lparr>items = [(STORAGE_KEY, JSON_stringify (json_of_students [?r]))],
                   quota = 5000\<rparr>"
    by (simp_all add: usage_single STORAGE_KEY_def)
  note save = saveStudents_stored [OF this(1), of "[]"] saveStudents_stored [OF this(2), of "[]"]
  have c: "console (handleSubmit sampleEnv lostEditApp) = []"
    unfolding hs by (simp add: saveEffect_console lostEditApp_fields(2,6,7) save)
  show ?thesis
    using lostEditApp_reachable c u'
    by (simp add: hs saveEffect_students saveEffect_fields lostEditApp_fields(1,3) i)
qed

text \<open>
  C1, amended. For every collection and every update draft whose id matches no record,
  no ``not found'' error is reported and the collection is unchanged: the updater
  returns the collection as it is, and the only errors that the submit sets are those
  of the field validation. When the draft passes validation, no error is set at all, the
  form closes as after a successful update, and nothing is logged but what the saving of
  the (unchanged) collection logs. When the draft fails validation, its field errors are
  set and nothing else changes.
\<close>

theorem update_absent_id:
  assumes "editingStudent app \<noteq> None"
    and "\<forall>s \<in> set (students app).
           Student.id' s \<noteq> Student.id' (studentData env (editingStudent app) (formData app))"
  shows "updateStudent (studentData env (editingStudent app) (formData app)) (students app)
           = students app
    \<and> students (handleSubmit env app) = students app
    \<and> errors (handleSubmit env app) = fst (validateForm (formData app))
    \<and> (if snd (validateForm (formData app))
        then errors (handleSubmit env app) = Map.empty
          \<and> showForm (handleSubmit env app) = False
          \<and> editingStudent (handleSubmit env app) = None
          \<and> console (handleSubmit env app) =
              (if isLoading app then console app
               else snd (saveStudents (students app) (localStorage app) (console app)))
        else handleSubmit env app = app\<lparr>errors := fst (validateForm (formData app))\<rparr>)"
proof (cases "snd (validateForm (formData app))")
  case True
  let ?sd = "studentData env (editingStudent app) (formData app)"
  have u: "updateStudent ?sd (students app) = students app"
    using assms(2) by (rule updateStudent_absent)
  have e: "fst (validateForm (formData app)) = Map.empty"
    using True by (auto simp: validateForm_snd)
  show ?thesis
    unfolding handleSubmit_valid [OF True]
    using assms(1) u e True
    by (simp add: saveEffect_students saveEffect_fields saveEffect_console)
next
  case False
  have u: "updateStudent (studentData env (editingStudent app) (formData app)) (students app)
             = students app"
    using assms(2) by (rule updateStudent_absent)
  show ?thesis
    using False u by (simp add: handleSubmit_invalid)
qed

theorem update_absent_id_witness:
  "editingStudent (sampleApp\<lparr>editingStudent := Some (ann\<lparr>Student.id' := ''zzz''\<rparr>)\<rparr>) \<noteq> None
   \<and> Student.id' ann \<noteq> ''zzz''
   \<and> snd (validateForm (formData (sampleApp\<lparr>editingStudent := Some (ann\<lparr>Student.id' := ''zzz''\<rparr>)\<rparr>)))
   \<and> students (handleSubmit sampleEnv
        (sampleApp\<lparr>editingStudent := Some (ann\<lparr>Student.id' := ''zzz''\<rparr>)\<rparr>)) = [ann]
   \<and> errors (handleSubmit sampleEnv
        (sampleApp\<lparr>editingStudent := Some (ann\<lparr>Student.id' := ''zzz''\<rparr>)\<rparr>)) = Map.empty
   \<and> showForm (handleSubmit sampleEnv
        (sampleApp\<lparr>editingStudent := Some (ann\<lparr>Student.id' := ''zzz''\<rparr>)\<rparr>)) = False
   \<and> \<not> snd (validateForm (formData
        (sampleApp\<lparr>editingStudent := Some (ann\<lparr>Student.id' := ''zzz''\<rparr>),
           formData := goodForm\<lparr>FormData.name := ''  ''\<rparr>\<rparr>)))
   \<and> students (handleSubmit sampleEnv
        (sampleApp\<lparr>editingStudent := Some (ann\<lparr>Student.id' := ''zzz''\<rparr>),
           formData := goodForm\<lparr>FormData.name := ''  ''\<rparr>\<rparr>)) = [ann]
   \<and> errors (handleSubmit sampleEnv
        (sampleApp\<lparr>editingStudent := Some (ann\<lparr>Student.id' := ''zzz''\<rparr>),
           formData := goodForm\<lparr>FormData.name := ''  ''\<rparr>\<rparr>)) Name = Some ''Name is required''
   \<and> showForm (handleSubmit sampleEnv
        (sampleApp\<lparr>editingStudent := Some (ann\<lparr>Student.id' := ''zzz''\<rparr>),
           formData := goodForm\<lparr>FormData.name := ''  ''\<rparr>\<rparr>)) = True"
proof -
  let ?app = "sampleApp\<lparr>editingStudent := Some (ann\<lparr>Student.id' := ''zzz''\<rparr>)\<rparr>"
  let ?bad = "sampleApp\<lparr>editingStudent := Some (ann\<lparr>Student.id' := ''zzz''\<rparr>),
           formData := goodForm\<lparr>FormData.name := ''  ''\<rparr>\<rparr>"
  have 1: "editingStudent ?app \<noteq> None" "editingStudent ?bad \<noteq> None" by simp_all
  have 2: "snd (validateForm (formData ?app))" by (simp add: sampleApp_def goodForm_valid)
  have 3: "\<forall>s \<in> set (students ?app).
             Student.id' s \<noteq> Student.id' (studentData sampleEnv (editingStudent ?app) (formData ?app))"
    by (simp add: sampleApp_def studentData_def or_else_def ann_def)
  have 4: "\<forall>s \<in> set (students ?bad).
             Student.id' s \<noteq> Student.id' (studentData sampleEnv (editingStudent ?bad) (formData ?bad))"
    by (simp add: sampleApp_def studentData_def or_else_def ann_def)
  have t: "trim ''  '' = []" by (simp add: trim_def isWhiteSpace_def)
  have 5: "\<not> snd (validateForm (formData ?bad))"
    unfolding validateForm_snd field_dom_empty by (simp add: validateForm_Name t)
  have 6: "fst (validateForm (formData ?bad)) Name = Some ''Name is required''"
    by (simp add: validateForm_Name t)
  have 7: "Student.id' ann \<noteq> ''zzz''" by (simp add: ann_def)
  have good: "students (handleSubmit sampleEnv ?app) = [ann]
      \<and> errors (handleSubmit sampleEnv ?app) = Map.empty
      \<and> showForm (handleSubmit sampleEnv ?app) = False"
    using 2 update_absent_id [OF 1(1) 3] by (simp add: sampleApp_def goodForm_valid)
  have bad: "students (handleSubmit sampleEnv ?bad) = [ann]
      \<and> errors (handleSubmit sampleEnv ?bad) Name = Some ''Name is required''
      \<and> showForm (handleSubmit sampleEnv ?bad) = True"
    using 5 6 update_absent_id [OF 1(2) 4] by (simp add: sampleApp_def)
  show ?thesis
    using 1(1) 2 5 7 good bad by simp
qed

text \<open>
  C3, as the specification has it: an update never changes the enrollment date of the
  record, whatever the record. In \<open>undatedApp\<close> the record being edited has an empty
  enrollment date (a string, but a falsy one); the update gives it the time of the
  submit.
\<close>

theorem update_dateEnrolled_counterexample:
  "reachable undatedApp
   \<and> Student.dateEnrolled (students undatedApp ! 0) = []
   \<and> Student.dateEnrolled (students (handleSubmit sampleEnv undatedApp) ! 0)
       = ''2025-06-01T12:00:00.000Z''"
proof -
  have v: "validateForm (formData undatedApp) = (Map.empty, True)"
    unfolding undatedApp_fields by (rule ann_form_valid) simp
  then have v': "snd (validateForm (formData undatedApp))" by simp
  show ?thesis
    unfolding handleSubmit_valid [OF v']
    using undatedApp_reachable
    by (simp add: saveEffect_students undatedApp_fields updateStudent_def studentData_def
        or_else_def sampleEnv_def ann_def)
qed

lemma studentData_dateEnrolled:
  "Student.dateEnrolled s \<noteq> [] \<Longrightarrow>
   Student.dateEnrolled (studentData env (Some s) fd) = Student.dateEnrolled s"
  by (simp add: studentData_def or_else_def)

lemma length_updateStudent: "length (updateStudent u prev) = length prev"
  by (simp add: updateStudent_def)

text \<open>
  C3, amended. For every existing record whose enrollment date is not empty and every
  update draft submitted for it, whether the draft passes validation or not, the
  collection keeps its length and the record at the place of the original has the
  enrollment date of the original, and its id.
\<close>

theorem update_keeps_dateEnrolled:
  assumes "editingStudent app = Some s"
    and "Student.dateEnrolled s \<noteq> []"
    and "i < length (students app)"
    and "students app ! i = s"
  shows "length (students (handleSubmit env app)) = length (students app)
    \<and> Student.dateEnrolled (students (handleSubmit env app) ! i) = Student.dateEnrolled s
    \<and> Student.id' (students (handleSubmit env app) ! i) = Student.id' s"
proof (cases "snd (validateForm (formData app))")
  case False
  then show ?thesis
    using assms(4) by (simp add: handleSubmit_invalid)
next
  case True
  let ?sd = "studentData env (Some s) (formData app)"
  have "students (handleSubmit env app) = updateStudent ?sd (students app)"
    using True assms(1) by (simp add: handleSubmit_valid_students)
  moreover have "Student.dateEnrolled (updateStudent ?sd (students app) ! i) = Student.dateEnrolled s"
    using assms(2,3,4) by (simp add: updateStudent_nth studentData_dateEnrolled)
  moreover have "Student.id' (updateStudent ?sd (students app) ! i) = Student.id' s"
    using assms(3,4) by (simp add: updateStudent_nth)
  ultimately show ?thesis by (simp add: length_updateStudent)
qed

theorem update_keeps_dateEnrolled_witness:
  "editingStudent (sampleApp\<lparr>editingStudent := Some ann\<rparr>) = Some ann
   \<and> Student.dateEnrolled ann \<noteq> []
   \<and> (0::nat) < length (students (sampleApp\<lparr>editingStudent := Some ann\<rparr>))
   \<and> students (sampleApp\<lparr>editingStudent := Some ann\<rparr>) ! 0 = ann
   \<and> length (students (handleSubmit sampleEnv (sampleApp\<lparr>editingStudent := Some ann\<rparr>))) = 1
   \<and> Student.dateEnrolled (students (handleSubmit sampleEnv (sampleApp\<lparr>editingStudent := Some ann\<rparr>)) ! 0)
       = ''2024-01-01T00:00:00.000Z''
   \<and> Student.name (students (handleSubmit sampleEnv (sampleApp\<lparr>editingStudent := Some ann\<rparr>)) ! 0)
       = ''Bob''"
proof -
  let ?app = "sampleApp\<lparr>editingStudent := Some ann\<rparr>"
  have 1: "editingStudent ?app = Some ann" by simp
  have 2: "Student.dateEnrolled ann \<noteq> []" by (simp add: ann_def)
  have 3: "0 < length (students ?app)" by (simp add: sampleApp_def)
  have 4: "students ?app ! 0 = ann" by (simp add: sampleApp_def)
  have v: "snd (validateForm (formData sampleApp))"
    by (simp add: sampleApp_def goodForm_valid)
  then have v': "snd (validateForm (formData ?app))" by simp
  have t: "trim '' Bob '' = ''Bob''" by (simp add: trim_def isWhiteSpace_def)
  have n: "Student.name (students (handleSubmit sampleEnv ?app) ! 0) = ''Bob''"
    unfolding handleSubmit_valid [OF v']
    by (simp add: saveEffect_students updateStudent_def studentData_def or_else_def
        sampleApp_def goodForm_def t ann_def)
  have d: "Student.dateEnrolled ann = ''2024-01-01T00:00:00.000Z''" by (simp add: ann_def)
  show ?thesis
    using 1 2 3 4 n update_keeps_dateEnrolled [OF 1 2 3 4, of sampleEnv]
    by (simp add: sampleApp_def d)
qed

lemma local_domain_tld_not_padded:
  assumes "local_domain_tld e" "\<forall>c \<in> set pre. isWhiteSpace c" "\<forall>c \<in> set post. isWhiteSpace c"
    and "pre \<noteq> [] \<or> post \<noteq> []"
  shows "\<not> local_domain_tld (pre @ e @ post)"
proof
  assume "local_domain_tld (pre @ e @ post)"
  then have "\<forall>c \<in> set (pre @ e @ post). \<not> isWhiteSpace c"
    using local_domain_tld_chars by blast
  moreover obtain c where "c \<in> set pre \<or> c \<in> set post"
    using assms(4) by (cases pre; cases post) auto
  ultimately show False using assms(2,3) by auto
qed

text \<open>
  C10. The format check reads the email as typed, not trimmed. For every draft whose
  email is a valid local@domain.tld address with white space before it or behind it:
  \<open>validateForm\<close> flags the email ``Please enter a valid email address'' and the
  submit commits nothing, although the trimmed email is the valid address, which the
  commit path would store in lower case.
\<close>

theorem padded_email_rejected:
  assumes "validateEmail e"
    and "\<forall>c \<in> set pre. isWhiteSpace c" and "\<forall>c \<in> set post. isWhiteSpace c"
    and "pre \<noteq> [] \<or> post \<noteq> []"
    and "FormData.email (formData app) = pre @ e @ post"
  shows "fst (validateForm (formData app)) Email = Some ''Please enter a valid email address''
    \<and> snd (validateForm (formData app)) = False
    \<and> students (handleSubmit env app) = students app
    \<and> localStorage (handleSubmit env app) = localStorage app
    \<and> trim (FormData.email (formData app)) = e
    \<and> Student.email (studentData env (editingStudent app) (formData app)) = toLowerCase e"
proof -
  have ld: "local_domain_tld e" using assms(1) by (simp add: validateEmail_iff)
  note ch = local_domain_tld_chars [OF ld]
  have t: "trim (pre @ e @ post) = e"
    using ch assms(2,3) by (simp add: trim_surround)
  have "e \<noteq> []" using ch by simp
  moreover have "\<not> validateEmail (pre @ e @ post)"
    unfolding validateEmail_iff
    using ld assms(2,3,4) by (rule local_domain_tld_not_padded)
  ultimately have flag: "fst (validateForm (formData app)) Email
      = Some ''Please enter a valid email address''"
    using t assms(5) by (simp add: validateForm_Email)
  then have bad: "\<not> snd (validateForm (formData app))"
    by (simp add: validateForm_snd field_dom_empty del: dom_eq_empty_conv)
  show ?thesis
    using flag bad t assms(5) handleSubmit_invalid [OF bad, of env]
    by (simp add: studentData_def)
qed

theorem padded_email_rejected_witness:
  "validateEmail ''Bob@Mail.com''
   \<and> fst (validateForm (formData (sampleApp\<lparr>formData := goodForm\<lparr>FormData.email := '' Bob@Mail.com''\<rparr>\<rparr>))) Email
       = Some ''Please enter a valid email address''
   \<and> students (handleSubmit sampleEnv
        (sampleApp\<lparr>formData := goodForm\<lparr>FormData.email := '' Bob@Mail.com''\<rparr>\<rparr>)) = [ann]
   \<and> trim '' Bob@Mail.com'' = ''Bob@Mail.com''
   \<and> Student.email (studentData sampleEnv None (goodForm\<lparr>FormData.email := '' Bob@Mail.com''\<rparr>))
       = ''bob@mail.com''"
proof -
  let ?app = "sampleApp\<lparr>formData := goodForm\<lparr>FormData.email := '' Bob@Mail.com''\<rparr>\<rparr>"
  have 1: "validateEmail ''Bob@Mail.com''"
    by (simp add: validateEmail_def test_def emailRegex_def Plus_def isWhiteSpace_def)
  have 2: "\<forall>c \<in> set '' ''. isWhiteSpace c" "\<forall>c \<in> set []. isWhiteSpace c"
    by (simp_all add: isWhiteSpace_def)
  have 3: "'' '' \<noteq> [] \<or> [] \<noteq> ([] :: string)" by simp
  have 4: "FormData.email (formData ?app) = '' '' @ ''Bob@Mail.com'' @ []" by simp
  have low: "toLowerCase ''Bob@Mail.com'' = ''bob@mail.com''" by code_simp
  show ?thesis
    using 1 low padded_email_rejected [OF 1 2 3 4, of sampleEnv]
    by (simp add: sampleApp_def)
qed

section \<open>The course directory and the add operation\<close>









text \<open>
  Where the block is. The submit handler reads neither the courses nor their error: the
  collection after a submit is the same whatever the state of the directory. What keeps
  an add from committing while the directory has failed is what the controls let the
  draft be: with no course listed, the course of an add form is empty.
\<close>

lemma handleSubmit_ignores_directory:
  "students (handleSubmit env (app\<lparr>courses := cs, coursesLoading := l, coursesError := e\<rparr>))
     = students (handleSubmit env app)"
  by (cases "snd (validateForm (formData app))")
    (simp_all add: handleSubmit_valid_students handleSubmit_invalid)





section \<open>Loading and saving\<close>

text \<open>
  The storage stays within its room: what \<open>setItem\<close> stores is within the quota;
  and in a storage that is within its quota, the value of a key can always be replaced by
  one that is not longer.
\<close>

lemma setItem_within_quota: "setItem k v st = Inr st' \<Longrightarrow> usage (items st') \<le> quota st'"
  by (auto simp: setItem_def split: if_splits)

lemma usage_update_le:
  "map_of al k = Some w \<Longrightarrow> length v \<le> length w \<Longrightarrow> usage (AList.update k v al) \<le> usage al"
  by (induction al) (auto simp: usage_def)

lemma setItem_shorter:
  assumes "usage (items st) \<le> quota st" and "getItem st k = Some w" and "length v \<le> length w"
  shows "setItem k v st = Inr (st\<lparr>items := AList.update k v (items st)\<rparr>)"
proof -
  have "usage (AList.update k v (items st)) \<le> usage (items st)"
    using assms(2,3) unfolding getItem_def by (rule usage_update_le)
  then show ?thesis using assms(1) by (simp add: setItem_def)
qed

lemma number_free_students: "number_free (json_of_students ss)"
  by (simp add: json_of_students_def json_of_student_def list_all_iff)

lemma stringify_students_nonempty: "JSON_stringify (json_of_students ss) \<noteq> []"
  by (simp add: JSON_stringify_def json_of_students_def)

lemma json_of_student_inject: "json_of_student a = json_of_student b \<Longrightarrow> a = b"
  by (cases a; cases b) (simp add: json_of_student_def)

lemma json_of_students_inject: "json_of_students xs = json_of_students ys \<Longrightarrow> xs = ys"
proof -
  assume "json_of_students xs = json_of_students ys"
  then have "map json_of_student xs = map json_of_student ys"
    by (simp add: json_of_students_def)
  moreover have "inj json_of_student"
    by (rule injI) (rule json_of_student_inject)
  ultimately show "xs = ys" by (simp add: inj_map_eq_map)
qed

lemma getStoredStudents_stored:
  assumes "getItem st STORAGE_KEY = Some text" "text \<noteq> []"
  shows "getStoredStudents st c =
           (case JSON_parse text of
              Inl e \<Rightarrow> (JArray [], c @ [(''Error retrieving students from storage:'', e)])
            | Inr v \<Rightarrow> (v, c))"
  using assms by (simp add: getStoredStudents_def getStoredStudents_try_def split: sum.splits)

text \<open>
  C7, as the specification has it: for every state of the stored text the load returns a
  sequence of records, and logs a warning when the text is absent. Here the stored text
  is \<open>null\<close>, which is JSON: the load returns the value \<open>null\<close>, not a sequence. And
  with no stored text at all, the load logs nothing.
\<close>

theorem load_counterexample:
  "fst (getStoredStudents \<lparr>items = [(STORAGE_KEY, ''null'')], quota = 5000\<rparr> []) = JNull
   \<and> is_array (fst (getStoredStudents \<lparr>items = [(STORAGE_KEY, ''null'')], quota = 5000\<rparr> []))
       = False
   \<and> getStoredStudents \<lparr>items = [], quota = 5000\<rparr> [] = (JArray [], [])"
proof -
  have p: "JSON_parse ''null'' = Inr JNull" by code_simp
  have "getStoredStudents \<lparr>items = [(STORAGE_KEY, ''null'')], quota = 5000\<rparr> [] = (JNull, [])"
    by (simp add: getStoredStudents_stored [of _ "''null''"] getItem_def p)
  moreover have "getStoredStudents \<lparr>items = [], quota = 5000\<rparr> [] = (JArray [], [])"
    by (simp add: getStoredStudents_def getStoredStudents_try_def getItem_def)
  ultimately show ?thesis by simp
qed

text \<open>
  C7, amended. For every state of the stored text the load returns a value and raises
  nothing: when the text is absent or empty it returns the empty sequence and logs
  nothing; when the text does not deserialize it returns the empty sequence and logs
  the error; when the text deserializes it returns the deserialized value as it is and
  logs nothing. Whatever is raised inside the \<open>try\<close> block ends as the empty sequence
  and one logged error.
\<close>

theorem load_total:
  "(getItem st STORAGE_KEY = None \<or> getItem st STORAGE_KEY = Some [] \<longrightarrow>
      getStoredStudents st c = (JArray [], c))
   \<and> (\<forall>text e. getItem st STORAGE_KEY = Some text \<and> text \<noteq> [] \<and> JSON_parse text = Inl e \<longrightarrow>
        getStoredStudents st c
          = (JArray [], c @ [(''Error retrieving students from storage:'', e)]))
   \<and> (\<forall>text v. getItem st STORAGE_KEY = Some text \<and> text \<noteq> [] \<and> JSON_parse text = Inr v \<longrightarrow>
        getStoredStudents st c = (v, c))
   \<and> (\<forall>e. getStoredStudents_try st = Inl e \<longrightarrow>
        getStoredStudents st c
          = (JArray [], c @ [(''Error retrieving students from storage:'', e)]))"
  by (auto simp: getStoredStudents_def getStoredStudents_try_def)

theorem load_total_witness:
  "getItem \<lparr>items = [(STORAGE_KEY, ''[{]'')], quota = 5000\<rparr> STORAGE_KEY = Some ''[{]''
   \<and> JSON_parse ''[{]'' = Inl SyntaxError
   \<and> getStoredStudents \<lparr>items = [(STORAGE_KEY, ''[{]'')], quota = 5000\<rparr> []
       = (JArray [], [(''Error retrieving students from storage:'', SyntaxError)])
   \<and> getItem \<lparr>items = [(STORAGE_KEY, ''[]'')], quota = 5000\<rparr> STORAGE_KEY = Some ''[]''
   \<and> JSON_parse ''[]'' = Inr (JArray [])
   \<and> getStoredStudents \<lparr>items = [(STORAGE_KEY, ''[]'')], quota = 5000\<rparr> [] = (JArray [], [])
   \<and> getItem \<lparr>items = [], quota = 5000\<rparr> STORAGE_KEY = None
   \<and> getStoredStudents \<lparr>items = [], quota = 5000\<rparr> [] = (JArray [], [])"
proof -
  have p: "JSON_parse ''[{]'' = Inl SyntaxError" "JSON_parse ''[]'' = Inr (JArray [])"
    by code_simp+
  have g: "getItem \<lparr>items = [(STORAGE_KEY, ''[{]'')], quota = 5000\<rparr> STORAGE_KEY = Some ''[{]''"
    "getItem \<lparr>items = [(STORAGE_KEY, ''[]'')], quota = 5000\<rparr> STORAGE_KEY = Some ''[]''"
    "getItem \<lparr>items = [], quota = 5000\<rparr> STORAGE_KEY = None"
    by (simp_all add: getItem_def)
  show ?thesis
    using p g
      load_total [of "\<lparr>items = [(STORAGE_KEY, ''[{]'')], quota = 5000\<rparr>" "[]"]
      load_total [of "\<lparr>items = [(STORAGE_KEY, ''[]'')], quota = 5000\<rparr>" "[]"]
      load_total [of "\<lparr>items = [], quota = 5000\<rparr>" "[]"]
    by simp
qed

text \<open>
  C8, as the specification has it: for every collection, saving it and then loading
  gives the collection back. In \<open>fullStore\<close> the origin has room for 200 characters,
  of which the stored collection of one record takes 155. The collection of two records
  needs 299: its save is refused, which is logged and nothing more, and the load gives
  the collection of one record.
\<close>

theorem save_load_counterexample:
  "usage (items fullStore) = 155 \<and> quota fullStore = 200
   \<and> getStoredStudents fullStore [] = (json_of_students [ann], [])
   \<and> usage (AList.update STORAGE_KEY (JSON_stringify (json_of_students [ann, bob]))
        (items fullStore)) = 299
   \<and> saveStudents [ann, bob] fullStore []
       = (fullStore, [(''Error saving students to storage:'', QuotaExceededError)])
   \<and> fst (getStoredStudents (fst (saveStudents [ann, bob] fullStore [])) [])
       = json_of_students [ann]
   \<and> json_of_students [ann] \<noteq> json_of_students [ann, bob]"
proof -
  have l1: "length (JSON_stringify (json_of_students [ann])) = 142"
    by code_simp
  have l2: "length (JSON_stringify (json_of_students [ann, bob])) = 286"
    by code_simp
  have u1: "usage (items fullStore) = 155"
    by (simp add: fullStore_def usage_def l1 STORAGE_KEY_def)
  have u2: "usage (AList.update STORAGE_KEY (JSON_stringify (json_of_students [ann, bob]))
        (items fullStore)) = 299"
    by (simp add: fullStore_def usage_single l2) (simp add: STORAGE_KEY_def)
  have "quota fullStore < usage (AList.update STORAGE_KEY
      (JSON_stringify (json_of_students [ann, bob])) (items fullStore))"
    unfolding u2 by (simp add: fullStore_def)
  note f = saveStudents_failed [OF this, of "[]"]
  have g: "getItem fullStore STORAGE_KEY = Some (JSON_stringify (json_of_students [ann]))"
    by (simp add: getItem_def fullStore_def)
  have r: "getStoredStudents fullStore [] = (json_of_students [ann], [])"
    unfolding getStoredStudents_stored [OF g stringify_students_nonempty]
    by (simp add: JSON_roundtrip number_free_students)
  have n: "json_of_students [ann] \<noteq> json_of_students [ann, bob]"
    by (simp add: json_of_students_def)
  have q: "quota fullStore = 200" by (simp add: fullStore_def)
  show ?thesis
    unfolding f using u1 u2 r n q by simp
qed

text \<open>
  C8, amended. For every collection of student records that the storage has room for,
  saving it and then loading gives the collection back, field for field, and logs
  nothing. There is room when the entries of the origin, with the text of the collection
  as the value of the key, take no more than the room of the origin.
\<close>

theorem save_load_roundtrip:
  assumes "usage (AList.update STORAGE_KEY (JSON_stringify (json_of_students ss)) (items st))
             \<le> quota st"
  shows "getStoredStudents (fst (saveStudents ss st c)) c' = (json_of_students ss, c')
    \<and> snd (saveStudents ss st c) = c
    \<and> (\<forall>ss'. json_of_students ss' = json_of_students ss \<longrightarrow> ss' = ss)"
proof -
  let ?st = "fst (saveStudents ss st c)"
  have g: "getItem ?st STORAGE_KEY = Some (JSON_stringify (json_of_students ss))"
    by (simp add: saveStudents_stored [OF assms] getItem_update)
  have "getStoredStudents ?st c' = (json_of_students ss, c')"
    unfolding getStoredStudents_stored [OF g stringify_students_nonempty]
    by (simp add: JSON_roundtrip number_free_students)
  then show ?thesis
    using json_of_students_inject by (auto simp: saveStudents_stored [OF assms])
qed

theorem save_load_roundtrip_witness:
  "usage (AList.update STORAGE_KEY (JSON_stringify (json_of_students [ann]))
      (items \<lparr>items = [], quota = 5000\<rparr>)) = 155
   \<and> getStoredStudents (fst (saveStudents [ann] \<lparr>items = [], quota = 5000\<rparr> [])) []
       = (json_of_students [ann], [])
   \<and> usage (AList.update STORAGE_KEY (JSON_stringify (json_of_students [])) (items fullStore))
       = 15
   \<and> quota fullStore = 200
   \<and> getStoredStudents (fst (saveStudents [] fullStore [])) [] = (json_of_students [], [])"
proof -
  have l1: "length (JSON_stringify (json_of_students [ann])) = 142"
    by code_simp
  have l0: "length (JSON_stringify (json_of_students [])) = 2"
    by code_simp
  have u1: "usage (AList.update STORAGE_KEY (JSON_stringify (json_of_students [ann]))
      (items \<lparr>items = [], quota = 5000\<rparr>)) = 155"
    by (simp add: usage_single l1) (simp add: STORAGE_KEY_def)
  have u0: "usage (AList.update STORAGE_KEY (JSON_stringify (json_of_students []))
      (items fullStore)) = 15"
    by (simp add: fullStore_def usage_single l0) (simp add: STORAGE_KEY_def)
  have q: "quota fullStore = 200" by (simp add: fullStore_def)
  have a1: "usage (AList.update STORAGE_KEY (JSON_stringify (json_of_students [ann]))
      (items \<lparr>items = [], quota = 5000\<rparr>)) \<le> quota \<lparr>items = [], quota = 5000\<rparr>"
    unfolding u1 by simp
  have a0: "usage (AList.update STORAGE_KEY (JSON_stringify (json_of_students []))
      (items fullStore)) \<le> quota fullStore"
    unfolding u0 q by simp
  show ?thesis
    using u1 u0 q save_load_roundtrip [OF a1, of "[]" "[]"]
      save_load_roundtrip [OF a0, of "[]" "[]"]
    by simp
qed

end
